theory Spec2Isabelle
  imports Complex_Main "HOL-Library.Sublist"
begin

text \<open>
  The quotation front end: the pricing of a quotation's line items, the handlers that
  change the line items, the lookup and the search in the machine catalog, the
  deactivation of a machine in the administration panel, and the preview and the
  confirmation of a price list import.
\<close>

section \<open>JavaScript numbers\<close>

text \<open>
  A TypeScript \<open>number\<close> is an IEEE 754 double: \<open>NaN\<close>, one of the two infinities,
  or a finite value, which is a rational number.  The finite doubles are the rationals
  \<open>M * 2 ^ e\<close> with \<open>M\<close> up to \<open>2 ^ 53\<close> and \<open>e\<close> from \<open>- 1074\<close>, below
  \<open>2 ^ 1024\<close> in absolute value (\<open>representable\<close>).  Every arithmetic operation
  computes the exact result and rounds it to the nearest double, ties to the even
  significand, and to an infinity from \<open>2 ^ 1024 - 2 ^ 970\<close> on (\<open>fl\<close>).  A decimal
  literal or a JSON number \<open>x\<close> denotes the double \<open>fl x\<close>.  The two zeros are not
  told apart: they are equal under \<open>===\<close> and \<open><=\<close>, and both are falsy.
\<close>

datatype number = NaN | PInf | NInf | Num rat

text \<open>Rounding a rational to the nearest integer, ties to the even one.\<close>

definition round_half_even :: "rat \<Rightarrow> int" where
  "round_half_even y =
     (let f = \<lfloor>y\<rfloor>; d = y - of_int f
      in if d < 1 / 2 then f else if 1 / 2 < d then f + 1
         else if even f then f else f + 1)"

text \<open>
  Magnitudes are counted in units of \<open>2 ^ - 1074\<close>, the smallest positive double
  (\<open>bias\<close>).  A magnitude of \<open>s\<close> units is rounded to a multiple of \<open>2 ^ k\<close> units,
  where the level \<open>k\<close> is the greatest one up to \<open>top_level\<close> with
  \<open>2 ^ (k + 52) \<le> s\<close>, and 0 if there is none (the subnormal numbers): the
  significand \<open>s / 2 ^ k\<close> then has at most 53 bits.
\<close>

definition top_level :: nat where
  "top_level = 2045"

definition bias :: nat where
  "bias = 1074"

fun level_below :: "nat \<Rightarrow> rat \<Rightarrow> nat" where
  "level_below 0 s = 0"
| "level_below (Suc k) s = (if 2 ^ (Suc k + 52) \<le> s then Suc k else level_below k s)"

definition round_scaled :: "rat \<Rightarrow> rat" where
  "round_scaled s =
     (let k = level_below top_level s in of_int (round_half_even (s / 2 ^ k)) * 2 ^ k)"

text \<open>
  The double nearest to a rational; an infinity when the rounded magnitude reaches
  \<open>2 ^ 1024\<close>, which is \<open>2 ^ (top_level + 53)\<close> units.
\<close>

definition fl :: "rat \<Rightarrow> number" where
  "fl x =
     (let s = round_scaled (\<bar>x\<bar> * 2 ^ bias)
      in if 2 ^ (top_level + 53) \<le> s then (if 0 < x then PInf else NInf)
         else Num ((if 0 < x then s else - s) / 2 ^ bias))"

definition representable :: "rat \<Rightarrow> bool" where
  "representable r \<longleftrightarrow>
     (\<exists>M e. \<bar>r\<bar> * 2 ^ bias = of_int M * 2 ^ e \<and> 0 \<le> M \<and> M \<le> 2 ^ 53
        \<and> of_int M * (2::rat) ^ e < 2 ^ (top_level + 53))"

text \<open>\<open>a + b\<close>\<close>

fun js_add :: "number \<Rightarrow> number \<Rightarrow> number" where
  "js_add (Num a) (Num b) = fl (a + b)"
| "js_add NaN _ = NaN"
| "js_add _ NaN = NaN"
| "js_add PInf NInf = NaN"
| "js_add NInf PInf = NaN"
| "js_add PInf _ = PInf"
| "js_add _ PInf = PInf"
| "js_add NInf _ = NInf"
| "js_add _ NInf = NInf"

text \<open>\<open>a - b\<close>\<close>

fun js_sub :: "number \<Rightarrow> number \<Rightarrow> number" where
  "js_sub (Num a) (Num b) = fl (a - b)"
| "js_sub NaN _ = NaN"
| "js_sub _ NaN = NaN"
| "js_sub PInf PInf = NaN"
| "js_sub NInf NInf = NaN"
| "js_sub PInf _ = PInf"
| "js_sub _ PInf = NInf"
| "js_sub NInf _ = NInf"
| "js_sub _ NInf = PInf"

text \<open>\<open>a * b\<close>: an infinity times zero is \<open>NaN\<close>.\<close>

fun js_mul :: "number \<Rightarrow> number \<Rightarrow> number" where
  "js_mul (Num a) (Num b) = fl (a * b)"
| "js_mul NaN _ = NaN"
| "js_mul _ NaN = NaN"
| "js_mul PInf (Num b) = (if b = 0 then NaN else if 0 < b then PInf else NInf)"
| "js_mul NInf (Num b) = (if b = 0 then NaN else if 0 < b then NInf else PInf)"
| "js_mul (Num a) PInf = (if a = 0 then NaN else if 0 < a then PInf else NInf)"
| "js_mul (Num a) NInf = (if a = 0 then NaN else if 0 < a then NInf else PInf)"
| "js_mul PInf PInf = PInf"
| "js_mul NInf NInf = PInf"
| "js_mul PInf NInf = NInf"
| "js_mul NInf PInf = NInf"

text \<open>
  \<open>a / b\<close>.  The only division of the modelled source is by the literal 100; a zero
  divisor is taken as the positive zero.
\<close>

fun js_div :: "number \<Rightarrow> number \<Rightarrow> number" where
  "js_div (Num a) (Num b) =
     (if b = 0 then (if a = 0 then NaN else if 0 < a then PInf else NInf)
      else fl (a / b))"
| "js_div NaN _ = NaN"
| "js_div _ NaN = NaN"
| "js_div (Num a) _ = Num 0"
| "js_div PInf (Num b) = (if 0 \<le> b then PInf else NInf)"
| "js_div NInf (Num b) = (if 0 \<le> b then NInf else PInf)"
| "js_div _ _ = NaN"

text \<open>\<open>Math.max(a, b)\<close>: \<open>NaN\<close> as soon as one argument is \<open>NaN\<close>.\<close>

fun Math_max :: "number \<Rightarrow> number \<Rightarrow> number" where
  "Math_max (Num a) (Num b) = Num (max a b)"
| "Math_max NaN _ = NaN"
| "Math_max _ NaN = NaN"
| "Math_max PInf _ = PInf"
| "Math_max _ PInf = PInf"
| "Math_max NInf b = b"
| "Math_max a NInf = a"

text \<open>Truthiness of a number: \<open>0\<close> and \<open>NaN\<close> are falsy.\<close>

fun truthy :: "number \<Rightarrow> bool" where
  "truthy NaN = False"
| "truthy (Num a) = (a \<noteq> 0)"
| "truthy _ = True"

text \<open>\<open>a || b\<close> on numbers.\<close>

definition js_or :: "number \<Rightarrow> number \<Rightarrow> number" where
  "js_or a b = (if truthy a then a else b)"

text \<open>\<open>a === b\<close> on numbers: \<open>NaN\<close> equals nothing, itself included.\<close>

fun strict_eq :: "number \<Rightarrow> number \<Rightarrow> bool" where
  "strict_eq (Num a) (Num b) = (a = b)"
| "strict_eq PInf PInf = True"
| "strict_eq NInf NInf = True"
| "strict_eq _ _ = False"

text \<open>\<open>a <= b\<close> and \<open>a >= b\<close> on numbers: false as soon as one side is \<open>NaN\<close>.\<close>

fun js_le :: "number \<Rightarrow> number \<Rightarrow> bool" where
  "js_le NaN _ = False"
| "js_le _ NaN = False"
| "js_le NInf _ = True"
| "js_le _ PInf = True"
| "js_le (Num a) (Num b) = (a \<le> b)"
| "js_le _ _ = False"

definition js_ge :: "number \<Rightarrow> number \<Rightarrow> bool" where
  "js_ge a b = js_le b a"

section \<open>Data model\<close>

text \<open>
  \<open>types/index.ts\<close>: interfaces \<open>Option\<close> and \<open>Machine\<close>.  An optional field
  \<open>f?: T\<close> is a \<open>T option\<close>.  The field \<open>id\<close> is written \<open>machine_id\<close>
  (\<open>opt_id\<close> for an option), and the fields of \<open>Option\<close> carry the prefix
  \<open>opt_\<close>, since a record field is a constant of the theory.
\<close>

record MachineOption =
  opt_id :: number
  opt_name :: string
  opt_price :: number
  opt_description :: string
  opt_active :: bool

record Machine =
  machine_id :: number
  code :: string
  name :: string
  price :: number
  category :: string
  description :: string
  active :: bool
  model_name :: "string option"
  product_title :: "string option"
  price_currency :: "string option"
  options :: "MachineOption list option"
  availableOptions :: "MachineOption list option"

text \<open>Component \<open>App\<close>: interface \<open>LineItem\<close> (\<open>id\<close> is written \<open>item_id\<close>).\<close>

record LineItem =
  item_id :: string
  machineCode :: string
  quantity :: number

text \<open>
  The objects built by \<open>lineItemDetails\<close>:
  \<open>{ ...item, machine, unitPrice, subtotal }\<close>.
\<close>

record LineItemDetail = LineItem +
  machine :: "Machine option"
  unitPrice :: number
  subtotal :: number

section \<open>Catalog lookup (\<open>utils/machineUtils\<close>)\<close>

text \<open>
  \<open>machines.find((machine) => machine.code === code) || null\<close>: the first machine of
  the list with that code; \<open>None\<close> is \<open>null\<close>.
\<close>

definition findMachineByCode :: "string \<Rightarrow> Machine list \<Rightarrow> Machine option" where
  "findMachineByCode c machines = find (\<lambda>machine. code machine = c) machines"

section \<open>Pricing (component \<open>App\<close>, computed values)\<close>

text \<open>\<open>machine?.price ?? 0\<close>\<close>

definition unitPriceOf :: "Machine option \<Rightarrow> number" where
  "unitPriceOf m = (case map_option price m of None \<Rightarrow> Num 0 | Some p \<Rightarrow> p)"

definition lineItemDetail :: "Machine list \<Rightarrow> LineItem \<Rightarrow> LineItemDetail" where
  "lineItemDetail machines item =
     (let m = findMachineByCode (machineCode item) machines;
          u = unitPriceOf m;
          s = js_mul u (quantity item)
      in \<lparr>item_id = item_id item, machineCode = machineCode item, quantity = quantity item,
          machine = m, unitPrice = u, subtotal = s\<rparr>)"

definition lineItemDetails :: "Machine list \<Rightarrow> LineItem list \<Rightarrow> LineItemDetail list" where
  "lineItemDetails machines lineItems = map (lineItemDetail machines) lineItems"

text \<open>\<open>lineItemDetails.reduce((sum, i) => sum + i.subtotal, 0)\<close>\<close>

definition grandSubtotal :: "Machine list \<Rightarrow> LineItem list \<Rightarrow> number" where
  "grandSubtotal machines lineItems =
     foldl (\<lambda>sum i. js_add sum (subtotal i)) (Num 0) (lineItemDetails machines lineItems)"

text \<open>\<open>(grandSubtotal * form.discountPercent) / 100\<close>\<close>

definition discountAmount :: "Machine list \<Rightarrow> LineItem list \<Rightarrow> number \<Rightarrow> number" where
  "discountAmount machines lineItems discountPercent =
     js_div (js_mul (grandSubtotal machines lineItems) discountPercent) (Num 100)"

text \<open>\<open>grandSubtotal - discountAmount\<close>\<close>

definition grandTotal :: "Machine list \<Rightarrow> LineItem list \<Rightarrow> number \<Rightarrow> number" where
  "grandTotal machines lineItems discountPercent =
     js_sub (grandSubtotal machines lineItems)
            (discountAmount machines lineItems discountPercent)"

section \<open>Line item handlers (component \<open>App\<close>)\<close>

text \<open>
  Each handler passes an updater \<open>prev => ...\<close> to \<open>setLineItems\<close>; the definitions
  below are these updaters, with the handler's arguments in front.
\<close>

text \<open>
  The decimal digits of a non-negative integer, and the string a template literal renders
  it as.
\<close>

fun decimal_digits :: "nat \<Rightarrow> nat list" where
  "decimal_digits n = (if n < 10 then [n] else decimal_digits (n div 10) @ [n mod 10])"

declare decimal_digits.simps [simp del]

definition toString_nat :: "nat \<Rightarrow> string" where
  "toString_nat n = map (\<lambda>d. char_of (of_char CHR ''0'' + d)) (decimal_digits n)"

text \<open>
  \<open>handleMachineSelect\<close>.  \<open>now\<close> is the value of \<open>Date.now()\<close>, which the new
  item's id is built from.  (The handler also closes the machine selector, which is not
  part of the line items.)
\<close>

definition handleMachineSelect :: "nat \<Rightarrow> string \<Rightarrow> LineItem list \<Rightarrow> LineItem list" where
  "handleMachineSelect now c prev =
     (case find (\<lambda>item. machineCode item = c) prev of
        Some existing \<Rightarrow>
          map (\<lambda>item. if machineCode item = c
                       then item\<lparr>quantity := js_add (quantity item) (Num 1)\<rparr>
                       else item) prev
      | None \<Rightarrow>
          prev @ [\<lparr>item_id = c @ ''-'' @ toString_nat now, machineCode = c,
                   quantity = Num 1\<rparr>])"

definition removeLineItem :: "string \<Rightarrow> LineItem list \<Rightarrow> LineItem list" where
  "removeLineItem i prev = filter (\<lambda>item. item_id item \<noteq> i) prev"

definition adjustQuantity :: "string \<Rightarrow> number \<Rightarrow> LineItem list \<Rightarrow> LineItem list" where
  "adjustQuantity i delta prev =
     map (\<lambda>item. if item_id item = i
                  then item\<lparr>quantity := Math_max (Num 1) (js_add (quantity item) delta)\<rparr>
                  else item) prev"

definition updateQuantityInput :: "string \<Rightarrow> number \<Rightarrow> LineItem list \<Rightarrow> LineItem list" where
  "updateQuantityInput i v prev =
     map (\<lambda>item. if item_id item = i
                  then item\<lparr>quantity := Math_max (Num 1) (js_or v (Num 1))\<rparr>
                  else item) prev"

text \<open>
  \<open>handleInputChange\<close> for the field \<open>discountPercent\<close>: the stored value is
  \<open>parseFloat(value) || 0\<close>.  The argument is the result of \<open>parseFloat\<close>.
\<close>

definition handleInputChange_discountPercent :: "number \<Rightarrow> number" where
  "handleInputChange_discountPercent parsed = js_or parsed (Num 0)"

section \<open>Catalog search (\<open>utils/machineUtils\<close>)\<close>

text \<open>
  A \<open>char\<close> stands for a UTF-16 code unit up to U+00FF.  \<open>toLowerCase\<close> maps the
  capital letters of ASCII (A to Z) and of Latin-1 (U+00C0 to U+00DE, the multiplication
  sign U+00D7 apart) to the letter 32 places further.
\<close>

definition toLowerCase_char :: "char \<Rightarrow> char" where
  "toLowerCase_char c =
     (let n = (of_char c :: nat)
      in if (65 \<le> n \<and> n \<le> 90) \<or> (192 \<le> n \<and> n \<le> 222 \<and> n \<noteq> 215)
         then char_of (n + 32) else c)"

definition toLowerCase :: "string \<Rightarrow> string" where
  "toLowerCase s = map toLowerCase_char s"

text \<open>\<open>s.includes(t)\<close>: \<open>t\<close> occurs in \<open>s\<close> as a contiguous run.\<close>

fun string_includes :: "string \<Rightarrow> string \<Rightarrow> bool" where
  "string_includes [] t = (t = [])"
| "string_includes (c # s) t = (prefix t (c # s) \<or> string_includes s t)"

definition searchMachines :: "string \<Rightarrow> Machine list \<Rightarrow> Machine list" where
  "searchMachines searchTerm machines =
     (let term = toLowerCase searchTerm
      in filter (\<lambda>machine.
           string_includes (toLowerCase (name machine)) term \<or>
           string_includes (toLowerCase (category machine)) term \<or>
           string_includes (toLowerCase (code machine)) term) machines)"

text \<open>
  The reading of the search: a text contains a term case-insensitively when the
  lower-cased term is a contiguous part of the lower-cased text.
\<close>

definition contains_ci :: "string \<Rightarrow> string \<Rightarrow> bool" where
  "contains_ci s t = (\<exists>before after. toLowerCase s = before @ toLowerCase t @ after)"

section \<open>Deactivating a machine (component \<open>AdminPanel\<close>)\<close>

datatype notification_type = nt_success | nt_error

record Notification =
  ntype :: "notification_type option"
  message :: string

text \<open>
  The part of the panel's state that \<open>handleDeleteMachine\<close> writes: the machine list
  and the notification.
\<close>

record AdminPanelState =
  machines :: "Machine list"
  notification :: Notification

text \<open>
  What the request to the server came to: a response, with its \<open>ok\<close> flag, or a
  rejected \<open>fetch\<close>.
\<close>

datatype delete_outcome = Response bool | Rejected

text \<open>
  \<open>showNotification\<close> sets the notification (the timer that clears it three seconds
  later is not part of the model).
\<close>

definition showNotification :: "string \<Rightarrow> notification_type \<Rightarrow> AdminPanelState \<Rightarrow> AdminPanelState" where
  "showNotification msg t st = st\<lparr>notification := \<lparr>ntype = Some t, message = msg\<rparr>\<rparr>"

text \<open>
  \<open>handleDeleteMachine\<close>.  \<open>confirmed\<close> is the answer of the \<open>confirm\<close> dialog.
  The letters outside ASCII of the messages are given by their code.
\<close>

definition handleDeleteMachine ::
  "number \<Rightarrow> bool \<Rightarrow> delete_outcome \<Rightarrow> AdminPanelState \<Rightarrow> AdminPanelState" where
  "handleDeleteMachine machineId confirmed outcome st =
     (if \<not> confirmed then st
      else case outcome of
        Response ok \<Rightarrow>
          if ok then
            showNotification (''M'' @ [char_of (225::nat)] @ ''quina desactivada exitosamente'') nt_success
              (st\<lparr>machines :=
                 map (\<lambda>m. if strict_eq (machine_id m) machineId
                           then m\<lparr>active := False\<rparr> else m) (machines st)\<rparr>)
          else
            showNotification (''Error al desactivar la m'' @ [char_of (225::nat)] @ ''quina'') nt_error st
      | Rejected \<Rightarrow>
          showNotification (''Error de conexi'' @ [char_of (243::nat)] @ ''n'') nt_error st)"

section \<open>Price list import (\<open>components/PriceListImport.tsx\<close>)\<close>

text \<open>
  The interfaces of the component.  A field \<open>T | null\<close> or \<open>f?: T\<close> is a
  \<open>T option\<close>, \<open>None\<close> standing for \<open>null\<close> or for the absent field.  The
  fields carry a prefix per interface (\<open>po_\<close>, \<open>p_\<close>, \<open>c_\<close>, \<open>pd_\<close>,
  \<open>r_\<close>); \<open>p_selected\<close> and \<open>p_expanded\<close> are \<open>_selected\<close> and
  \<open>_expanded\<close>.
\<close>

record ParsedOptional =
  po_name :: string
  po_price :: "number option"

record ParsedProduct =
  p_code :: string
  p_product_title :: string
  p_model_name :: string
  p_name :: string
  p_category :: string
  p_price :: "number option"
  p_price_currency :: string
  p_specs :: "string list"
  p_optionals :: "ParsedOptional list"
  p_selected :: "bool option"
  p_expanded :: "bool option"

record ParsedCondition =
  c_name :: string
  c_discount_percent :: number
  c_description :: string
  c_sort_order :: number

record PreviewData =
  pd_products :: "ParsedProduct list"
  pd_payment_conditions :: "ParsedCondition list"
  pd_total_products :: number
  pd_total_with_price :: number

record ConfirmResult =
  r_imported :: number
  r_updated :: number
  r_errors :: "string list"
  r_payment_conditions_imported :: number

datatype Step = Idle | Loading | Preview | Confirming | Done

text \<open>The state of the component: one field per \<open>useState\<close>.\<close>

record ImportState =
  step :: Step
  preview :: "PreviewData option"
  products :: "ParsedProduct list"
  conditions :: "ParsedCondition list"
  replaceExisting :: bool
  result :: "ConfirmResult option"
  error :: "string option"

text \<open>
  What a request came to: a response with \<open>ok\<close> set and its parsed body; a response
  without \<open>ok\<close>, with the \<open>detail\<close> of its body when there is one; or an exception
  (a rejected \<open>fetch\<close>, a body that is not JSON) with its message.
\<close>

datatype 'a fetch_outcome =
    Ok_response 'a
  | Error_response "string option"
  | Thrown "string option"

text \<open>\<open>s || d\<close> on a string that may be absent: the empty string is falsy.\<close>

definition or_default :: "string option \<Rightarrow> string \<Rightarrow> string" where
  "or_default s d = (case s of None \<Rightarrow> d | Some x \<Rightarrow> if x = [] then d else x)"

text \<open>
  \<open>handleFileUpload\<close>, from the file's name and the outcome of the preview request
  to the state when the handler has finished.  A response without \<open>ok\<close> throws
  \<open>new Error(err.detail || 'Error al procesar el PDF')\<close>, and the \<open>catch\<close> block
  stores \<open>err.message || 'Error inesperado'\<close>.
\<close>

definition handleFileUpload :: "string \<Rightarrow> PreviewData fetch_outcome \<Rightarrow> ImportState \<Rightarrow> ImportState" where
  "handleFileUpload fileName outcome st =
     (if \<not> suffix ''.pdf'' (toLowerCase fileName)
      then st\<lparr>error := Some ''El archivo debe ser un PDF''\<rparr>
      else case outcome of
        Ok_response data \<Rightarrow>
          (let prods = map (\<lambda>p. p\<lparr>p_selected := Some (p_price p \<noteq> None),
                                    p_expanded := Some False\<rparr>) (pd_products data)
           in st\<lparr>error := None, preview := Some data, products := prods,
                 conditions := pd_payment_conditions data, step := Preview\<rparr>)
      | Error_response detail \<Rightarrow>
          st\<lparr>error := Some (or_default (Some (or_default detail ''Error al procesar el PDF''))
                                ''Error inesperado''),
             step := Idle\<rparr>
      | Thrown msg \<Rightarrow>
          st\<lparr>error := Some (or_default msg ''Error inesperado''), step := Idle\<rparr>)"

text \<open>The body of the confirm request.\<close>

record ConfirmRequest =
  body_products :: "ParsedProduct list"
  body_payment_conditions :: "ParsedCondition list"
  body_replace_existing :: bool

text \<open>
  \<open>({ _selected, _expanded, ...p }) => p\<close>: the object without the two fields.
\<close>

definition cleanProduct :: "ParsedProduct \<Rightarrow> ParsedProduct" where
  "cleanProduct p = p\<lparr>p_selected := None, p_expanded := None\<rparr>"

text \<open>
  \<open>handleConfirm\<close>: the request it sends, if any, and the state when it has finished.
  \<open>outcome\<close> is what the request comes to, and is read only when one is sent.  The
  callback \<open>onImportComplete\<close> belongs to the parent component.
\<close>

definition handleConfirm ::
  "ConfirmResult fetch_outcome \<Rightarrow> ImportState \<Rightarrow> ConfirmRequest option \<times> ImportState" where
  "handleConfirm outcome st =
     (let selectedProducts = filter (\<lambda>p. p_selected p = Some True) (products st)
      in if length selectedProducts = 0
         then (None, st\<lparr>error := Some (''Seleccion'' @ [char_of (225::nat)] @
                                          '' al menos un producto para importar'')\<rparr>)
         else
           (let cleanProducts = map cleanProduct selectedProducts;
                request = \<lparr>body_products = cleanProducts,
                           body_payment_conditions = conditions st,
                           body_replace_existing = replaceExisting st\<rparr>
            in (Some request,
                case outcome of
                  Ok_response res \<Rightarrow> st\<lparr>error := None, result := Some res, step := Done\<rparr>
                | Error_response detail \<Rightarrow>
                    st\<lparr>error := Some (or_default
                            (Some (or_default detail
                               (''Error al confirmar importaci'' @ [char_of (243::nat)] @ ''n'')))
                            ''Error inesperado''),
                       step := Preview\<rparr>
                | Thrown msg \<Rightarrow>
                    st\<lparr>error := Some (or_default msg ''Error inesperado''),
                       step := Preview\<rparr>)))"

section \<open>Example data\<close>

definition machineX1 :: Machine where
  "machineX1 = \<lparr>machine_id = Num 1, code = ''X1'', name = ''Tolva ATF 18'', price = Num 1000,
     category = ''Tolvas'', description = '''', active = True, model_name = None,
     product_title = None, price_currency = None, options = None, availableOptions = None\<rparr>"

definition machineX2 :: Machine where
  "machineX2 = \<lparr>machine_id = Num 2, code = ''X2'', name = ''Sinfin SFT 8'', price = Num 500,
     category = ''Sinfines'', description = '''', active = True, model_name = None,
     product_title = None, price_currency = None, options = None, availableOptions = None\<rparr>"

definition exampleItems :: "LineItem list" where
  "exampleItems = [\<lparr>item_id = ''X1-1'', machineCode = ''X1'', quantity = Num 2\<rparr>,
                   \<lparr>item_id = ''X2-2'', machineCode = ''X2'', quantity = Num 1\<rparr>]"

definition unknownItems :: "LineItem list" where
  "unknownItems = [\<lparr>item_id = ''X1-1'', machineCode = ''X1'', quantity = Num 2\<rparr>,
                   \<lparr>item_id = ''x1-2'', machineCode = ''x1'', quantity = Num 3\<rparr>]"

definition examplePanel :: AdminPanelState where
  "examplePanel = \<lparr>machines = [machineX1, machineX2],
                    notification = \<lparr>ntype = None, message = ''''\<rparr>\<rparr>"

text \<open>The initial state of the import component (the arguments of its \<open>useState\<close>).\<close>

definition initialImportState :: ImportState where
  "initialImportState = \<lparr>step = Idle, preview = None, products = [], conditions = [],
     replaceExisting = True, result = None, error = None\<rparr>"

definition productA :: ParsedProduct where
  "productA = \<lparr>p_code = ''ATF18'', p_product_title = ''Tolva'', p_model_name = ''ATF 18'',
     p_name = ''Tolva ATF 18'', p_category = ''Tolvas'', p_price = Some (Num 1000),
     p_price_currency = ''USD'', p_specs = [''18 tn''], p_optionals = [],
     p_selected = None, p_expanded = None\<rparr>"

definition productB :: ParsedProduct where
  "productB = \<lparr>p_code = ''SFT8'', p_product_title = ''Sinfin'', p_model_name = ''SFT 8'',
     p_name = ''Sinfin SFT 8'', p_category = ''Sinfines'', p_price = None,
     p_price_currency = ''USD'', p_specs = [], p_optionals = [],
     p_selected = None, p_expanded = None\<rparr>"

definition productC :: ParsedProduct where
  "productC = \<lparr>p_code = ''ATF22'', p_product_title = ''Tolva'', p_model_name = ''ATF 22'',
     p_name = ''Tolva ATF 22'', p_category = ''Tolvas'', p_price = Some (Num 1500),
     p_price_currency = ''USD'', p_specs = [], p_optionals = [],
     p_selected = None, p_expanded = None\<rparr>"

definition examplePreview :: PreviewData where
  "examplePreview = \<lparr>pd_products = [productA, productB, productC],
     pd_payment_conditions = [], pd_total_products = Num 3, pd_total_with_price = Num 2\<rparr>"

definition unpricedPreview :: PreviewData where
  "unpricedPreview = \<lparr>pd_products = [productB],
     pd_payment_conditions = [], pd_total_products = Num 1, pd_total_with_price = Num 0\<rparr>"

text \<open>The review states that loading the two example previews leads to.\<close>

definition exampleReview :: ImportState where
  "exampleReview =
     handleFileUpload ''LISTADEPRECIOS.pdf'' (Ok_response examplePreview) initialImportState"

definition unpricedReview :: ImportState where
  "unpricedReview =
     handleFileUpload ''LISTADEPRECIOS.pdf'' (Ok_response unpricedPreview) initialImportState"

definition hugeMachine :: Machine where
  "hugeMachine = \<lparr>machine_id = Num 9, code = ''X9'', name = ''Planta de silos'',
     price = Num (2 ^ 1023), category = ''Plantas'', description = '''', active = True,
     model_name = None, product_title = None, price_currency = None, options = None,
     availableOptions = None\<rparr>"

definition hugeItems :: "LineItem list" where
  "hugeItems = [\<lparr>item_id = ''X9-1'', machineCode = ''X9'', quantity = Num 4\<rparr>]"

section \<open>Rounding: auxiliary facts\<close>

lemma round_half_even_of_int [simp]: "round_half_even (of_int n) = n"
  by (simp add: round_half_even_def)

lemma round_half_even_numeral [simp]:
  "round_half_even (numeral w) = numeral w" "round_half_even 0 = 0" "round_half_even 1 = 1"
  using round_half_even_of_int [of "numeral w"] round_half_even_of_int [of 0]
    round_half_even_of_int [of 1]
  by simp_all

lemma round_half_even_bounds:
  "\<lfloor>y\<rfloor> \<le> round_half_even y" "round_half_even y \<le> \<lfloor>y\<rfloor> + 1"
  by (simp_all add: round_half_even_def Let_def)

lemma round_half_even_mono:
  assumes "y \<le> z"
  shows "round_half_even y \<le> round_half_even z"
proof (cases "\<lfloor>y\<rfloor> = \<lfloor>z\<rfloor>")
  case True
  with assms show ?thesis
    by (auto simp: round_half_even_def Let_def)
next
  case False
  with assms have "\<lfloor>y\<rfloor> + 1 \<le> \<lfloor>z\<rfloor>"
    using floor_mono [of y z] by linarith
  with round_half_even_bounds(2) [of y] round_half_even_bounds(1) [of z]
  show ?thesis by linarith
qed

lemma level_below_le: "level_below k s \<le> k"
  by (induction k) auto

lemma level_below_lower: "0 < level_below k s \<Longrightarrow> 2 ^ (level_below k s + 52) \<le> s"
  by (induction k) (auto split: if_splits)

lemma level_below_upper: "level_below k s < k \<Longrightarrow> s < 2 ^ (level_below k s + 53)"
proof (induction k)
  case 0
  then show ?case by simp
next
  case (Suc k)
  show ?case
  proof (cases "2 ^ (Suc k + 52) \<le> s")
    case True
    with Suc.prems show ?thesis by simp
  next
    case False
    show ?thesis
    proof (cases "level_below k s < k")
      case True
      with Suc.IH False show ?thesis by simp
    next
      case f: False
      with level_below_le [of k s] have "level_below k s = k" by simp
      with False show ?thesis by (simp add: not_le add.commute)
    qed
  qed
qed

lemma level_below_mono: "s \<le> t \<Longrightarrow> level_below k s \<le> level_below k t"
proof (induction k)
  case 0
  then show ?case by simp
next
  case (Suc k)
  then show ?case
    using level_below_le [of k s] by (auto intro: le_SucI)
qed


lemma round_scaled_mono:
  assumes "s \<le> t"
  shows "round_scaled s \<le> round_scaled t"
proof -
  define ks where "ks = level_below top_level s"
  define kt where "kt = level_below top_level t"
  have k: "ks \<le> kt" unfolding ks_def kt_def by (rule level_below_mono [OF assms])
  have rs: "round_scaled s = of_int (round_half_even (s / 2 ^ ks)) * 2 ^ ks"
    and rt: "round_scaled t = of_int (round_half_even (t / 2 ^ kt)) * 2 ^ kt"
    by (simp_all add: round_scaled_def ks_def kt_def Let_def)
  show ?thesis
  proof (cases "ks = kt")
    case True
    from assms have "s / 2 ^ kt \<le> t / 2 ^ kt" by (simp add: divide_right_mono)
    then have "round_half_even (s / 2 ^ kt) \<le> round_half_even (t / 2 ^ kt)"
      by (rule round_half_even_mono)
    then show ?thesis by (simp add: rs rt True)
  next
    case False
    with k have lt: "ks < kt" by simp
    from level_below_le [of top_level t] lt have "ks < top_level" by (simp add: kt_def)
    then have "s < 2 ^ (ks + 53)"
      using level_below_upper [of top_level s] by (simp add: ks_def)
    then have "s / 2 ^ ks \<le> of_int (2 ^ 53)"
      by (simp add: divide_le_eq power_add mult.commute)
    from round_half_even_mono [OF this]
    have "round_half_even (s / 2 ^ ks) \<le> 2 ^ 53" by simp
    then have "(of_int (round_half_even (s / 2 ^ ks)) :: rat) \<le> of_int (2 ^ 53)"
      by (simp only: of_int_le_iff)
    then have "round_scaled s \<le> 2 ^ 53 * 2 ^ ks"
      by (simp add: rs)
    also have "\<dots> = 2 ^ (ks + 53)" by (simp add: power_add)
    also from lt have "\<dots> \<le> (2::rat) ^ (kt + 52)"
      by (intro power_increasing) simp_all
    finally have up: "round_scaled s \<le> 2 ^ (kt + 52)" .
    from lt have "0 < kt" by simp
    then have "2 ^ (kt + 52) \<le> t"
      using level_below_lower [of top_level t] by (simp add: kt_def)
    then have "of_int (2 ^ 52) \<le> t / 2 ^ kt"
      by (simp add: le_divide_eq power_add mult.commute)
    from round_half_even_mono [OF this]
    have "2 ^ 52 \<le> round_half_even (t / 2 ^ kt)" by simp
    then have "(of_int (2 ^ 52) :: rat) \<le> of_int (round_half_even (t / 2 ^ kt))"
      by (simp only: of_int_le_iff)
    then have "2 ^ 52 * 2 ^ kt \<le> round_scaled t"
      by (simp add: rt)
    then have "2 ^ (kt + 52) \<le> round_scaled t" by (simp add: power_add mult.commute)
    with up show ?thesis by linarith
  qed
qed

lemma round_scaled_fix:
  assumes "s = of_int M * 2 ^ e" and "0 \<le> M" and "M \<le> 2 ^ 53"
  shows "round_scaled s = s"
proof -
  define k where "k = level_below top_level s"
  have r: "round_scaled s = of_int (round_half_even (s / 2 ^ k)) * 2 ^ k"
    by (simp add: round_scaled_def k_def Let_def)
  have "\<exists>n. s / 2 ^ k = of_int n"
  proof (cases "k \<le> e")
    case True
    then have "(2::rat) ^ e = 2 ^ (e - k) * 2 ^ k"
      by (simp add: power_add [symmetric])
    then have "s / 2 ^ k = of_int (M * 2 ^ (e - k))"
      by (simp add: assms(1))
    then show ?thesis by blast
  next
    case False
    then have "0 < k" and ek: "e < k" by simp_all
    then have low: "2 ^ (k + 52) \<le> s"
      using level_below_lower [of top_level s] by (simp add: k_def)
    from assms(3) have "(of_int M :: rat) \<le> of_int (2 ^ 53)"
      by (simp only: of_int_le_iff)
    then have "s \<le> 2 ^ 53 * 2 ^ e" by (simp add: assms(1))
    then have hi: "s \<le> 2 ^ (e + 53)" by (simp add: power_add mult.commute)
    from low hi have "(2::rat) ^ (k + 52) \<le> 2 ^ (e + 53)" by linarith
    then have "k + 52 \<le> e + 53" by simp
    with ek have ke: "k = e + 1" by simp
    with low hi have "s = 2 ^ (e + 53)" by (simp add: add.commute)
    then have "s / 2 ^ k = of_int (2 ^ 52)" by (simp add: ke power_add)
    then show ?thesis by blast
  qed
  then obtain n where n: "s / 2 ^ k = of_int n" by blast
  then have "round_half_even (s / 2 ^ k) = n" by simp
  with r have "round_scaled s = of_int n * 2 ^ k" by simp
  also from n have "\<dots> = s" by (simp add: divide_eq_eq)
  finally show ?thesis .
qed

lemma round_scaled_shape:
  assumes "0 \<le> s" and "round_scaled s < 2 ^ (top_level + 53)"
  shows "\<exists>M e. round_scaled s = of_int M * 2 ^ e \<and> 0 \<le> M \<and> M \<le> 2 ^ 53"
proof -
  define k where "k = level_below top_level s"
  define M where "M = round_half_even (s / 2 ^ k)"
  have r: "round_scaled s = of_int M * 2 ^ k"
    by (simp add: round_scaled_def k_def M_def Let_def)
  from assms(1) have "of_int 0 \<le> s / 2 ^ k" by simp
  from round_half_even_mono [OF this] have M0: "0 \<le> M" by (simp add: M_def)
  have "M \<le> 2 ^ 53"
  proof (cases "k < top_level")
    case True
    then have "s < 2 ^ (k + 53)"
      using level_below_upper [of top_level s] by (simp add: k_def)
    then have "s / 2 ^ k \<le> of_int (2 ^ 53)"
      by (simp add: divide_le_eq power_add mult.commute)
    from round_half_even_mono [OF this] show ?thesis by (simp add: M_def)
  next
    case False
    with level_below_le [of top_level s] have k: "k = top_level" by (simp add: k_def)
    from assms(2) have "of_int M * (2::rat) ^ top_level < 2 ^ 53 * 2 ^ top_level"
      by (simp add: r k power_add mult.commute)
    then have "(of_int M :: rat) < of_int (2 ^ 53)" by simp
    then have "M < 2 ^ 53" by (simp only: of_int_less_iff)
    then show ?thesis by simp
  qed
  with r M0 show ?thesis by blast
qed

lemma round_scaled_nonneg: "0 \<le> s \<Longrightarrow> 0 \<le> round_scaled s"
  using round_scaled_mono [of 0 s] round_scaled_fix [of 0 0 0] by simp


lemma bias_less_top: "bias < top_level" "0 < bias"
  by (simp_all add: bias_def top_level_def)

lemma round_scaled_0 [simp]: "round_scaled 0 = 0"
  using round_scaled_fix [of 0 0 0] by simp

lemma round_scaled_abs_nonneg: "0 \<le> round_scaled (\<bar>x\<bar> * 2 ^ bias)"
  by (rule round_scaled_nonneg) simp

lemma fl_representable:
  assumes "representable r"
  shows "fl r = Num r"
proof -
  from assms obtain M e where M: "\<bar>r\<bar> * 2 ^ bias = of_int M * 2 ^ e" "0 \<le> M" "M \<le> 2 ^ 53"
    and small: "of_int M * (2::rat) ^ e < 2 ^ (top_level + 53)"
    by (auto simp: representable_def)
  from round_scaled_fix [OF M] have fixed: "round_scaled (\<bar>r\<bar> * 2 ^ bias) = \<bar>r\<bar> * 2 ^ bias" .
  with small M(1) have "\<not> 2 ^ (top_level + 53) \<le> round_scaled (\<bar>r\<bar> * 2 ^ bias)"
    by simp
  then show ?thesis
    by (simp add: fl_def Let_def fixed)
qed

lemma fl_range:
  assumes "fl x = Num r"
  shows "representable r"
proof -
  define s where "s = round_scaled (\<bar>x\<bar> * 2 ^ bias)"
  from assms have small: "s < 2 ^ (top_level + 53)"
    and r: "r = (if 0 < x then s else - s) / 2 ^ bias"
    by (auto simp: fl_def Let_def s_def split: if_splits)
  have s0: "0 \<le> s" unfolding s_def by (rule round_scaled_abs_nonneg)
  then have "\<bar>r\<bar> = s / 2 ^ bias" by (simp add: r split: if_splits)
  then have abs: "\<bar>r\<bar> * 2 ^ bias = s" by simp
  from round_scaled_shape [OF _ small [unfolded s_def]] obtain M e
    where "s = of_int M * 2 ^ e" "0 \<le> M" "M \<le> 2 ^ 53"
    by (auto simp: s_def)
  with abs small show ?thesis
    unfolding representable_def by auto
qed

lemma fl_nonneg:
  assumes "0 \<le> x"
  shows "fl x = PInf \<or> (\<exists>r. fl x = Num r \<and> 0 \<le> r)"
  using assms round_scaled_abs_nonneg [of x]
  by (cases "x = 0") (auto simp: fl_def Let_def not_le)

lemma fl_nonpos:
  assumes "x \<le> 0"
  shows "fl x = NInf \<or> (\<exists>r. fl x = Num r \<and> r \<le> 0)"
  using assms round_scaled_abs_nonneg [of x]
  by (auto simp: fl_def Let_def)

lemma fl_mono:
  assumes "x \<le> y"
  shows "js_le (fl x) (fl y)"
proof -
  consider "0 < x" | "x \<le> 0" "0 < y" | "y \<le> 0" by linarith
  then show ?thesis
  proof cases
    case 1
    with assms have "0 < y" by simp
    from assms 1 have "round_scaled (\<bar>x\<bar> * 2 ^ bias) \<le> round_scaled (\<bar>y\<bar> * 2 ^ bias)"
      by (intro round_scaled_mono) simp
    with 1 \<open>0 < y\<close> show ?thesis
      by (auto simp: fl_def Let_def divide_right_mono)
  next
    case 2
    from fl_nonpos [OF 2(1)] fl_nonneg [of y] 2(2) show ?thesis
      by auto
  next
    case 3
    with assms have "x \<le> 0" by simp
    from assms 3 have "round_scaled (\<bar>y\<bar> * 2 ^ bias) \<le> round_scaled (\<bar>x\<bar> * 2 ^ bias)"
      by (intro round_scaled_mono) simp
    with 3 \<open>x \<le> 0\<close> show ?thesis
      by (auto simp: fl_def Let_def divide_right_mono)
  qed
qed

lemma representableI:
  assumes "\<bar>r\<bar> * 2 ^ bias = of_int M * 2 ^ e" and "0 \<le> M" and "M \<le> 2 ^ 53"
    and "e < top_level"
  shows "representable r"
proof -
  have "(of_int M :: rat) \<le> of_int (2 ^ 53)"
    using assms(3) by (simp only: of_int_le_iff)
  then have "of_int M * (2::rat) ^ e \<le> of_int (2 ^ 53) * 2 ^ e"
    by (rule mult_right_mono) simp
  also have "\<dots> = 2 ^ (e + 53)" by (simp add: power_add)
  also have "\<dots> < (2::rat) ^ (top_level + 53)"
    using assms(4) by (intro power_strict_increasing) simp_all
  finally have "of_int M * (2::rat) ^ e < 2 ^ (top_level + 53)" .
  with assms(1-3) show ?thesis
    unfolding representable_def by blast
qed

lemma representable_of_int:
  assumes "\<bar>n\<bar> \<le> 2 ^ 53"
  shows "representable (of_int n)"
proof (rule representableI)
  show "\<bar>of_int n :: rat\<bar> * 2 ^ bias = of_int \<bar>n\<bar> * 2 ^ bias" by simp
  show "0 \<le> \<bar>n\<bar>" by simp
  show "\<bar>n\<bar> \<le> 2 ^ 53" by (rule assms)
  show "bias < top_level" by (rule bias_less_top)
qed

lemma representable_half_int:
  assumes "\<bar>n\<bar> \<le> 2 ^ 53"
  shows "representable (of_int n / 2)"
proof (rule representableI)
  from bias_less_top(2) have "bias = Suc (bias - 1)" by simp
  then have b: "(2::rat) ^ bias = 2 * 2 ^ (bias - 1)"
    by (metis power_Suc)
  have "\<bar>of_int n / 2 :: rat\<bar> = of_int \<bar>n\<bar> / 2" by simp
  then show "\<bar>of_int n / 2 :: rat\<bar> * 2 ^ bias = of_int \<bar>n\<bar> * 2 ^ (bias - 1)"
    by (simp add: b)
  show "0 \<le> \<bar>n\<bar>" by simp
  show "\<bar>n\<bar> \<le> 2 ^ 53" by (rule assms)
  show "bias - 1 < top_level" using bias_less_top by simp
qed

lemma fl_of_int: "\<bar>n\<bar> \<le> 2 ^ 53 \<Longrightarrow> fl (of_int n) = Num (of_int n)"
  by (rule fl_representable [OF representable_of_int])

lemma fl_numeral:
  "numeral w \<le> (2 ^ 53 :: int) \<Longrightarrow> fl (numeral w) = Num (numeral w)"
  "numeral w \<le> (2 ^ 53 :: int) \<Longrightarrow> fl (- numeral w) = Num (- numeral w)"
  "fl 0 = Num 0" "fl 1 = Num 1"
  using fl_of_int [of "numeral w"] fl_of_int [of "- numeral w"] fl_of_int [of 0] fl_of_int [of 1]
  by simp_all

lemma fl_not_NaN [simp]: "fl x \<noteq> NaN"
  by (simp add: fl_def Let_def)

lemma fl_overflow:
  assumes "0 < x" and "2 ^ (top_level + 53) \<le> x * 2 ^ bias"
  shows "fl x = PInf"
proof -
  have "(2::rat) ^ (top_level + 53) = of_int (2 ^ 53) * 2 ^ top_level"
    by (simp add: power_add mult.commute)
  from round_scaled_fix [OF this] have "round_scaled (2 ^ (top_level + 53)) = 2 ^ (top_level + 53)"
    by simp
  with round_scaled_mono [OF assms(2)] have "2 ^ (top_level + 53) \<le> round_scaled (x * 2 ^ bias)"
    by simp
  with assms(1) show ?thesis
    by (simp add: fl_def Let_def abs_of_pos)
qed

text \<open>The double \<open>2 ^ 1023\<close>, and four times it, which is beyond the doubles.\<close>

lemma representable_2_1023: "representable (2 ^ 1023)"
  unfolding representable_def
proof (intro exI conjI)
  show "\<bar>(2::rat) ^ 1023\<bar> * 2 ^ bias = of_int (2 ^ 52) * 2 ^ top_level"
    by (simp add: bias_def top_level_def)
  show "(0::int) \<le> 2 ^ 52" by simp
  show "(2::int) ^ 52 \<le> 2 ^ 53" by simp
  have "(of_int (2 ^ 52) :: rat) * 2 ^ top_level < 2 ^ 53 * 2 ^ top_level"
    by (rule mult_strict_right_mono) simp_all
  also have "\<dots> = 2 ^ (top_level + 53)"
    by (simp only: power_add mult.commute)
  finally show "of_int (2 ^ 52) * (2::rat) ^ top_level < 2 ^ (top_level + 53)" .
qed

lemma fl_2_1025: "fl (2 ^ 1023 * 4) = PInf"
proof (rule fl_overflow)
  show "(0::rat) < 2 ^ 1023 * 4" by simp
  show "(2::rat) ^ (top_level + 53) \<le> 2 ^ 1023 * 4 * 2 ^ bias"
    by (simp add: bias_def top_level_def)
qed

text \<open>Rounding at a known level.\<close>

lemma level_below_eq:
  assumes "k \<le> n" and "2 ^ (k + 52) \<le> s" and "s < 2 ^ (k + 53)" and "0 < k"
  shows "level_below n s = k"
  using assms(1)
proof (induction n)
  case 0
  with assms(4) show ?case by simp
next
  case (Suc n)
  show ?case
  proof (cases "k = Suc n")
    case True
    with assms(2) show ?thesis by simp
  next
    case False
    with Suc.prems have kn: "k \<le> n" by simp
    then have "(2::rat) ^ (k + 53) \<le> 2 ^ (Suc n + 52)"
      by (intro power_increasing) simp_all
    with assms(3) have "\<not> 2 ^ (Suc n + 52) \<le> s" by linarith
    with Suc.IH [OF kn] show ?thesis by simp
  qed
qed

lemma fl_at_level:
  assumes "0 < x" and "0 < k" and "k < top_level"
    and "2 ^ (k + 52) \<le> x * 2 ^ bias" and "x * 2 ^ bias < 2 ^ (k + 53)"
  shows "fl x = Num (of_int (round_half_even (x * 2 ^ bias / 2 ^ k)) * 2 ^ k / 2 ^ bias)"
proof -
  from assms(3) have "k \<le> top_level" by simp
  from level_below_eq [OF this assms(4,5,2)]
  have r: "round_scaled (x * 2 ^ bias) = of_int (round_half_even (x * 2 ^ bias / 2 ^ k)) * 2 ^ k"
    by (simp add: round_scaled_def Let_def)
  from assms(5) have "x * 2 ^ bias / 2 ^ k \<le> of_int (2 ^ 53)"
    by (simp add: divide_le_eq power_add mult.commute)
  from round_half_even_mono [OF this]
  have "round_half_even (x * 2 ^ bias / 2 ^ k) \<le> 2 ^ 53" by simp
  then have "(of_int (round_half_even (x * 2 ^ bias / 2 ^ k)) :: rat) \<le> of_int (2 ^ 53)"
    by (simp only: of_int_le_iff)
  then have "of_int (round_half_even (x * 2 ^ bias / 2 ^ k)) * (2::rat) ^ k \<le> of_int (2 ^ 53) * 2 ^ k"
    by (rule mult_right_mono) simp
  also have "\<dots> = 2 ^ (k + 53)" by (simp add: power_add)
  also from assms(3) have "\<dots> < (2::rat) ^ (top_level + 53)"
    by (intro power_strict_increasing) simp_all
  finally have "\<not> 2 ^ (top_level + 53) \<le> round_scaled (x * 2 ^ bias)"
    by (simp add: r)
  with assms(1) show ?thesis
    by (simp add: fl_def Let_def r abs_of_pos)
qed

text \<open>
  The literals \<open>0.1\<close> and \<open>0.2\<close> denote the doubles nearest to a tenth and to a
  fifth, and their sum is the double \<open>0.30000000000000004\<close>.
\<close>

lemma fl_tenth: "fl (1 / 10) = Num (3602879701896397 / 36028797018963968)"
proof -
  have "fl (1 / 10) = Num (of_int (round_half_even (1 / 10 * 2 ^ bias / 2 ^ 1018)) * 2 ^ 1018 / 2 ^ bias)"
    by (rule fl_at_level) (simp_all add: bias_def top_level_def)
  also have "(1 / 10 * 2 ^ bias / 2 ^ 1018 :: rat) = 36028797018963968 / 5"
    by (simp add: bias_def)
  also have "round_half_even (36028797018963968 / 5) = 7205759403792794"
  proof -
    have "\<lfloor>36028797018963968 / 5 :: rat\<rfloor> = 7205759403792793"
      by (rule floor_unique) simp_all
    then show ?thesis by (simp add: round_half_even_def Let_def)
  qed
  also have "(of_int 7205759403792794 * 2 ^ 1018 / 2 ^ bias :: rat) = 3602879701896397 / 36028797018963968"
    by (simp add: bias_def)
  finally show ?thesis .
qed


lemma fl_fifth: "fl (1 / 5) = Num (3602879701896397 / 18014398509481984)"
proof -
  have "fl (1 / 5) = Num (of_int (round_half_even (1 / 5 * 2 ^ bias / 2 ^ 1019)) * 2 ^ 1019 / 2 ^ bias)"
    by (rule fl_at_level) (simp_all add: bias_def top_level_def)
  also have "(1 / 5 * 2 ^ bias / 2 ^ 1019 :: rat) = 36028797018963968 / 5"
    by (simp add: bias_def)
  also have "round_half_even (36028797018963968 / 5) = 7205759403792794"
  proof -
    have "\<lfloor>36028797018963968 / 5 :: rat\<rfloor> = 7205759403792793"
      by (rule floor_unique) simp_all
    then show ?thesis by (simp add: round_half_even_def Let_def)
  qed
  also have "(of_int 7205759403792794 * 2 ^ 1019 / 2 ^ bias :: rat) = 3602879701896397 / 18014398509481984"
    by (simp add: bias_def)
  finally show ?thesis .
qed

lemma rounding_example:
  "js_add (fl (1 / 10)) (fl (2 / 10)) = Num (1351079888211149 / 4503599627370496)"
proof -
  have "fl (10808639105689191 / 36028797018963968)
          = Num (of_int (round_half_even
                   (10808639105689191 / 36028797018963968 * 2 ^ bias / 2 ^ 1020))
                 * 2 ^ 1020 / 2 ^ bias)"
    by (rule fl_at_level) (simp_all add: bias_def top_level_def)
  also have "(10808639105689191 / 36028797018963968 * 2 ^ bias / 2 ^ 1020 :: rat)
               = 10808639105689191 / 2"
    by (simp add: bias_def)
  also have "round_half_even (10808639105689191 / 2) = 5404319552844596"
  proof -
    have "\<lfloor>10808639105689191 / 2 :: rat\<rfloor> = 5404319552844595"
      by (rule floor_unique) simp_all
    then show ?thesis by (simp add: round_half_even_def Let_def)
  qed
  also have "(of_int 5404319552844596 * 2 ^ 1020 / 2 ^ bias :: rat)
               = 1351079888211149 / 4503599627370496"
    by (simp add: bias_def)
  finally show ?thesis
    by (simp add: fl_tenth fl_fifth)
qed

section \<open>Pricing: auxiliary facts\<close>

lemma lineItemDetail_simps:
  "unitPrice (lineItemDetail ms item) = unitPriceOf (findMachineByCode (machineCode item) ms)"
  "subtotal (lineItemDetail ms item) =
     js_mul (unitPriceOf (findMachineByCode (machineCode item) ms)) (quantity item)"
  "machine (lineItemDetail ms item) = findMachineByCode (machineCode item) ms"
  "item_id (lineItemDetail ms item) = item_id item"
  "machineCode (lineItemDetail ms item) = machineCode item"
  "quantity (lineItemDetail ms item) = quantity item"
  by (simp_all add: lineItemDetail_def Let_def)

lemma unitPriceOf_catalog:
  assumes "\<forall>m\<in>set ms. \<exists>p. price m = Num p \<and> P p" and "P 0"
  shows "\<exists>u. unitPriceOf (findMachineByCode c ms) = Num u \<and> P u"
proof (cases "findMachineByCode c ms")
  case None
  with assms(2) show ?thesis by (simp add: unitPriceOf_def)
next
  case (Some m)
  then have "m \<in> set ms"
    by (auto simp: findMachineByCode_def find_Some_iff)
  with assms(1) Some show ?thesis by (auto simp: unitPriceOf_def)
qed

lemma grandSubtotal_foldl:
  "grandSubtotal ms items = foldl js_add (Num 0) (map subtotal (lineItemDetails ms items))"
  by (simp add: grandSubtotal_def foldl_map)

text \<open>Sums of non-negative numbers are a non-negative double or the positive infinity.\<close>

lemma js_add_nonneg:
  assumes "a = PInf \<or> (\<exists>r. a = Num r \<and> 0 \<le> r)" and "b = PInf \<or> (\<exists>r. b = Num r \<and> 0 \<le> r)"
  shows "js_add a b = PInf \<or> (\<exists>r. js_add a b = Num r \<and> 0 \<le> r)"
  using assms fl_nonneg by (cases a; cases b) auto

lemma foldl_js_add_nonneg:
  assumes "a = PInf \<or> (\<exists>r. a = Num r \<and> 0 \<le> r)"
    and "\<forall>x\<in>set xs. x = PInf \<or> (\<exists>r. x = Num r \<and> 0 \<le> r)"
  shows "foldl js_add a xs = PInf \<or> (\<exists>r. foldl js_add a xs = Num r \<and> 0 \<le> r)"
  using assms
proof (induction xs arbitrary: a)
  case Nil
  then show ?case by simp
next
  case (Cons x xs)
  from Cons.prems have "js_add a x = PInf \<or> (\<exists>r. js_add a x = Num r \<and> 0 \<le> r)"
    by (intro js_add_nonneg) simp_all
  from Cons.IH [OF this] Cons.prems(2) show ?case by simp
qed

text \<open>A finite sum is a double.\<close>

lemma js_add_representable: "js_add a b = Num S \<Longrightarrow> representable S"
  by (cases a; cases b) (auto dest: fl_range)

lemma foldl_js_add_representable:
  assumes "foldl js_add (Num 0) xs = Num S"
  shows "representable S"
proof (cases xs rule: rev_cases)
  case Nil
  with assms representable_of_int [of 0] show ?thesis by simp
next
  case (snoc ys y)
  with assms show ?thesis by (auto dest: js_add_representable)
qed

text \<open>The grand total is at most a finite, non-negative grand subtotal.\<close>

lemma total_le_subtotal:
  assumes "representable S" and "0 \<le> S" and "0 \<le> d"
  shows "js_le (js_sub (Num S) (js_div (js_mul (Num S) (Num d)) (Num 100))) (Num S)"
proof -
  from assms(2,3) have "0 \<le> S * d" by simp
  from fl_nonneg [OF this] show ?thesis
  proof
    assume "fl (S * d) = PInf"
    then show ?thesis by simp
  next
    assume "\<exists>p. fl (S * d) = Num p \<and> 0 \<le> p"
    then obtain p where p: "fl (S * d) = Num p" "0 \<le> p" by blast
    then have "0 \<le> p / 100" by simp
    from fl_nonneg [OF this] show ?thesis
    proof
      assume "fl (p / 100) = PInf"
      with p show ?thesis by simp
    next
      assume "\<exists>q. fl (p / 100) = Num q \<and> 0 \<le> q"
      then obtain q where q: "fl (p / 100) = Num q" "0 \<le> q" by blast
      then have "S - q \<le> S" by simp
      from fl_mono [OF this] fl_representable [OF assms(1)] p q show ?thesis by simp
    qed
  qed
qed

text \<open>An infinite grand subtotal leaves no grand total.\<close>

lemma total_of_infinite_subtotal:
  "0 \<le> d \<Longrightarrow> js_sub PInf (js_div (js_mul PInf (Num d)) (Num 100)) = NaN"
  by (cases "d = 0") simp_all

text \<open>Whole numbers up to \<open>2 ^ 53\<close> are multiplied and added without rounding.\<close>

lemma foldl_js_add_int:
  assumes "\<forall>z\<in>set zs. 0 \<le> z" and "0 \<le> a" and "a + sum_list zs \<le> 2 ^ 53"
  shows "foldl js_add (Num (of_int a)) (map (\<lambda>z. Num (of_int z)) zs)
           = Num (of_int (a + sum_list zs))"
  using assms
proof (induction zs arbitrary: a)
  case Nil
  then show ?case by simp
next
  case (Cons z zs)
  from Cons.prems(1) have z: "0 \<le> z" and zs: "\<forall>z\<in>set zs. 0 \<le> z" by simp_all
  from zs have "0 \<le> sum_list zs" by (simp add: sum_list_nonneg)
  with Cons.prems(2,3) z have "\<bar>a + z\<bar> \<le> 2 ^ 53" by simp
  from fl_of_int [OF this] have "js_add (Num (of_int a)) (Num (of_int z)) = Num (of_int (a + z))"
    by simp
  moreover from Cons.prems z have "0 \<le> a + z" "a + z + sum_list zs \<le> 2 ^ 53" by simp_all
  ultimately show ?case
    using Cons.IH [OF zs, of "a + z"] by (simp add: add.assoc)
qed

lemma member_le_sum_list:
  fixes zs :: "int list"
  assumes "\<forall>z\<in>set zs. 0 \<le> z" and "z \<in> set zs"
  shows "z \<le> sum_list zs"
  using assms by (induction zs) (auto simp: sum_list_nonneg add_increasing add_increasing2)

lemma subtotals_int:
  assumes us: "map unitPrice (lineItemDetails ms items) = map (\<lambda>u. Num (of_int u)) us"
    and qs: "map quantity items = map (\<lambda>q. Num (of_int q)) qs"
    and nn: "\<forall>u\<in>set us. 0 \<le> u" "\<forall>q\<in>set qs. 0 \<le> q"
    and sum: "sum_list (map2 (*) us qs) \<le> 2 ^ 53"
  shows "map subtotal (lineItemDetails ms items) = map (\<lambda>z. Num (of_int z)) (map2 (*) us qs)"
proof (rule nth_equalityI)
  from arg_cong [OF us, of length] have lu: "length us = length items"
    by (simp add: lineItemDetails_def)
  from arg_cong [OF qs, of length] have lq: "length qs = length items" by simp
  show "length (map subtotal (lineItemDetails ms items))
          = length (map (\<lambda>z. Num (of_int z)) (map2 (*) us qs))"
    using lu lq by (simp add: lineItemDetails_def)
  fix i assume "i < length (map subtotal (lineItemDetails ms items))"
  then have i: "i < length items" by (simp add: lineItemDetails_def)
  from arg_cong [OF us, of "\<lambda>l. l ! i"] i lu
  have u: "unitPrice (lineItemDetail ms (items ! i)) = Num (of_int (us ! i))"
    by (simp add: lineItemDetails_def)
  from arg_cong [OF qs, of "\<lambda>l. l ! i"] i lq
  have q: "quantity (items ! i) = Num (of_int (qs ! i))"
    by simp
  have nonneg: "\<forall>z\<in>set (map2 (*) us qs). 0 \<le> z"
  proof
    fix z assume "z \<in> set (map2 (*) us qs)"
    then obtain u q where "z = u * q" "(u, q) \<in> set (zip us qs)" by auto
    moreover from this have "u \<in> set us" "q \<in> set qs"
      by (auto dest: set_zip_leftD set_zip_rightD)
    ultimately show "0 \<le> z" using nn by simp
  qed
  from i lu lq have "us ! i * qs ! i \<in> set (map2 (*) us qs)"
    by (metis (no_types, lifting) length_map length_zip min.idem nth_map nth_mem nth_zip
        old.prod.case)
  from member_le_sum_list [OF nonneg this] nonneg this sum have "\<bar>us ! i * qs ! i\<bar> \<le> 2 ^ 53"
    by auto
  from fl_of_int [OF this] u q i lu lq
  show "map subtotal (lineItemDetails ms items) ! i
          = map (\<lambda>z. Num (of_int z)) (map2 (*) us qs) ! i"
    by (simp add: lineItemDetails_def lineItemDetail_simps)
qed

section \<open>Quantities: auxiliary facts\<close>

lemma js_ge_1_iff: "js_ge x (Num 1) \<longleftrightarrow> x = PInf \<or> (\<exists>q. x = Num q \<and> 1 \<le> q)"
  by (cases x) (simp_all add: js_ge_def)

lemma js_ge_1_1: "js_ge (Num 1) (Num 1)"
  by (simp add: js_ge_def)

lemma js_ge_fl_1: "1 \<le> x \<Longrightarrow> js_ge (fl x) (Num 1)"
  using fl_mono [of 1 x] by (simp add: js_ge_def fl_numeral)

lemma js_ge_Math_max_1: "x \<noteq> NaN \<Longrightarrow> js_ge (Math_max (Num 1) x) (Num 1)"
  by (cases x) (simp_all add: js_ge_def)

lemma Math_max_or_1:
  "Math_max (Num 1) (js_or v (Num 1)) =
     (case v of NaN \<Rightarrow> Num 1 | PInf \<Rightarrow> PInf | NInf \<Rightarrow> Num 1 | Num r \<Rightarrow> Num (max 1 r))"
  by (cases v) (simp_all add: js_or_def)

lemma js_add_1_ge:
  assumes "js_ge x (Num 1)"
  shows "js_ge (js_add x (Num 1)) (Num 1)"
proof -
  from assms consider "x = PInf" | q where "x = Num q" "1 \<le> q"
    by (auto simp: js_ge_1_iff)
  then show ?thesis
  proof cases
    case 1
    then show ?thesis by (simp add: js_ge_def)
  next
    case 2
    then have "1 \<le> q + 1" by simp
    from js_ge_fl_1 [OF this] 2 show ?thesis by simp
  qed
qed

lemma js_add_Num_not_NaN:
  assumes "js_ge x (Num 1)"
  shows "js_add x (Num d) \<noteq> NaN"
  using assms by (cases x) (simp_all add: js_ge_def)

lemma handleMachineSelect_inv:
  assumes "\<forall>item\<in>set prev. js_ge (quantity item) (Num 1)"
  shows "\<forall>item\<in>set (handleMachineSelect now c prev). js_ge (quantity item) (Num 1)"
  using assms
  by (auto simp: handleMachineSelect_def js_add_1_ge js_ge_1_1 split: option.splits)

lemma handleMachineSelect_new:
  assumes "find (\<lambda>item. machineCode item = c) prev = None"
  shows "handleMachineSelect now c prev =
           prev @ [\<lparr>item_id = c @ ''-'' @ toString_nat now, machineCode = c,
                    quantity = Num 1\<rparr>]"
  using assms by (simp add: handleMachineSelect_def)

lemma handleMachineSelect_existing:
  assumes "k < length prev" and "machineCode (prev ! k) = c"
  shows "handleMachineSelect now c prev ! k =
           (prev ! k)\<lparr>quantity := js_add (quantity (prev ! k)) (Num 1)\<rparr>"
proof -
  from assms have "find (\<lambda>item. machineCode item = c) prev \<noteq> None"
    by (auto simp: find_None_iff intro: nth_mem)
  with assms show ?thesis
    by (auto simp: handleMachineSelect_def)
qed

lemma removeLineItem_inv:
  assumes "\<forall>item\<in>set prev. js_ge (quantity item) (Num 1)"
  shows "\<forall>item\<in>set (removeLineItem i prev). js_ge (quantity item) (Num 1)"
  using assms by (simp add: removeLineItem_def)

lemma adjustQuantity_inv:
  assumes "\<forall>item\<in>set prev. js_ge (quantity item) (Num 1)"
  shows "\<forall>item\<in>set (adjustQuantity i (Num d) prev). js_ge (quantity item) (Num 1)"
  using assms
  by (auto simp: adjustQuantity_def js_ge_Math_max_1 js_add_Num_not_NaN)

lemma adjustQuantity_nth:
  assumes "k < length prev" and "item_id (prev ! k) = i"
  shows "adjustQuantity i delta prev ! k =
           (prev ! k)\<lparr>quantity := Math_max (Num 1) (js_add (quantity (prev ! k)) delta)\<rparr>"
  using assms by (simp add: adjustQuantity_def)

lemma updateQuantityInput_inv:
  assumes "\<forall>item\<in>set prev. js_ge (quantity item) (Num 1)"
  shows "\<forall>item\<in>set (updateQuantityInput i v prev). js_ge (quantity item) (Num 1)"
  using assms
  by (auto simp: updateQuantityInput_def Math_max_or_1 js_ge_def split: number.splits)

lemma updateQuantityInput_nth:
  assumes "k < length prev" and "item_id (prev ! k) = i"
  shows "updateQuantityInput i v prev ! k =
           (prev ! k)\<lparr>quantity := (case v of NaN \<Rightarrow> Num 1 | PInf \<Rightarrow> PInf | NInf \<Rightarrow> Num 1
                                      | Num r \<Rightarrow> Num (max 1 r))\<rparr>"
  using assms by (simp add: updateQuantityInput_def Math_max_or_1)

section \<open>The end-to-end example\<close>

text \<open>
  C3: with a catalog in which the code X1 resolves to a machine of price 1000 and X2 to a
  machine of price 500, the line items X1 (quantity 2) and X2 (quantity 1) and a discount
  of 10 percent give a grand subtotal of 2500, a discount amount of 250 and a grand total
  of 2250.
\<close>

theorem end_to_end_example:
  assumes "findMachineByCode ''X1'' ms = Some m1" and "price m1 = Num 1000"
    and "findMachineByCode ''X2'' ms = Some m2" and "price m2 = Num 500"
    and "items = [\<lparr>item_id = i1, machineCode = ''X1'', quantity = Num 2\<rparr>,
                  \<lparr>item_id = i2, machineCode = ''X2'', quantity = Num 1\<rparr>]"
  shows "grandSubtotal ms items = Num 2500
       \<and> discountAmount ms items (Num 10) = Num 250
       \<and> grandTotal ms items (Num 10) = Num 2250"
proof -
  have s: "grandSubtotal ms items = Num 2500"
    using assms
    by (simp add: grandSubtotal_def lineItemDetails_def lineItemDetail_simps unitPriceOf_def
          fl_numeral)
  then show ?thesis
    by (simp add: grandTotal_def discountAmount_def fl_numeral)
qed

theorem end_to_end_example_witness:
  "grandSubtotal [machineX1, machineX2]
     [\<lparr>item_id = ''X1-1'', machineCode = ''X1'', quantity = Num 2\<rparr>,
      \<lparr>item_id = ''X2-2'', machineCode = ''X2'', quantity = Num 1\<rparr>] = Num 2500
   \<and> discountAmount [machineX1, machineX2]
     [\<lparr>item_id = ''X1-1'', machineCode = ''X1'', quantity = Num 2\<rparr>,
      \<lparr>item_id = ''X2-2'', machineCode = ''X2'', quantity = Num 1\<rparr>] (Num 10) = Num 250
   \<and> grandTotal [machineX1, machineX2]
     [\<lparr>item_id = ''X1-1'', machineCode = ''X1'', quantity = Num 2\<rparr>,
      \<lparr>item_id = ''X2-2'', machineCode = ''X2'', quantity = Num 1\<rparr>] (Num 10) = Num 2250"
  by (rule end_to_end_example [where ?m1.0 = machineX1 and ?m2.0 = machineX2])
     (simp_all add: findMachineByCode_def machineX1_def machineX2_def)

section \<open>Pricing correctness\<close>

text \<open>
  C1, as amended: for line items whose quantities are numbers of at least 1, a catalog
  whose prices are non-negative numbers (the invariants of the data model) and a discount
  percentage \<open>d\<close> between 0 and 100, in the arithmetic of doubles: there is one line
  for each line item, in the same order, with the item's fields, the machine found for
  its code, the machine's price (0 when there is none) as unit price and the unit price
  times the quantity as subtotal; the grand subtotal is the sum of the subtotals, added
  from the left; the discount amount is the grand subtotal times \<open>d\<close> over 100; the
  grand total is the grand subtotal minus the discount amount.  The grand subtotal is a
  non-negative number or \<open>Infinity\<close>.  When it is a number, the grand total is at most
  the grand subtotal; when the sum has overflowed to \<open>Infinity\<close>, the grand total is
  \<open>NaN\<close>.  When the unit prices and the quantities are whole numbers whose products
  sum to at most \<open>2 ^ 53\<close>, the subtotals are the exact products and the grand subtotal
  is their exact sum.
\<close>

theorem pricing_computation:
  assumes items: "\<forall>item\<in>set lineItems. \<exists>q. quantity item = Num q \<and> 1 \<le> q"
    and catalog: "\<forall>m\<in>set catalog. \<exists>p. price m = Num p \<and> 0 \<le> p"
    and d: "0 \<le> d" "d \<le> 100"
  shows "length (lineItemDetails catalog lineItems) = length lineItems
       \<and> (\<forall>k<length lineItems.
             item_id (lineItemDetails catalog lineItems ! k) = item_id (lineItems ! k)
           \<and> machineCode (lineItemDetails catalog lineItems ! k) = machineCode (lineItems ! k)
           \<and> quantity (lineItemDetails catalog lineItems ! k) = quantity (lineItems ! k)
           \<and> machine (lineItemDetails catalog lineItems ! k)
               = findMachineByCode (machineCode (lineItems ! k)) catalog
           \<and> unitPrice (lineItemDetails catalog lineItems ! k)
               = (case findMachineByCode (machineCode (lineItems ! k)) catalog of
                    None \<Rightarrow> Num 0 | Some m \<Rightarrow> price m)
           \<and> subtotal (lineItemDetails catalog lineItems ! k)
               = js_mul (unitPrice (lineItemDetails catalog lineItems ! k))
                   (quantity (lineItems ! k)))
       \<and> grandSubtotal catalog lineItems
           = foldl js_add (Num 0) (map subtotal (lineItemDetails catalog lineItems))
       \<and> discountAmount catalog lineItems (Num d)
           = js_div (js_mul (grandSubtotal catalog lineItems) (Num d)) (Num 100)
       \<and> grandTotal catalog lineItems (Num d)
           = js_sub (grandSubtotal catalog lineItems) (discountAmount catalog lineItems (Num d))
       \<and> (grandSubtotal catalog lineItems = PInf
            \<or> (\<exists>S. grandSubtotal catalog lineItems = Num S \<and> 0 \<le> S))
       \<and> (\<forall>S. grandSubtotal catalog lineItems = Num S \<longrightarrow>
             js_le (grandTotal catalog lineItems (Num d)) (grandSubtotal catalog lineItems))
       \<and> (grandSubtotal catalog lineItems = PInf \<longrightarrow>
             grandTotal catalog lineItems (Num d) = NaN)
       \<and> (\<forall>us qs.
               map unitPrice (lineItemDetails catalog lineItems) = map (\<lambda>u. Num (of_int u)) us
             \<and> map quantity lineItems = map (\<lambda>q. Num (of_int q)) qs
             \<and> sum_list (map2 (*) us qs) \<le> 2 ^ 53
            \<longrightarrow> map subtotal (lineItemDetails catalog lineItems)
                  = map (\<lambda>z. Num (of_int z)) (map2 (*) us qs)
              \<and> grandSubtotal catalog lineItems = Num (of_int (sum_list (map2 (*) us qs))))"
proof -
  let ?details = "lineItemDetails catalog lineItems"
  have len: "length ?details = length lineItems"
    by (simp add: lineItemDetails_def)
  have lines: "\<forall>k<length lineItems.
             item_id (?details ! k) = item_id (lineItems ! k)
           \<and> machineCode (?details ! k) = machineCode (lineItems ! k)
           \<and> quantity (?details ! k) = quantity (lineItems ! k)
           \<and> machine (?details ! k) = findMachineByCode (machineCode (lineItems ! k)) catalog
           \<and> unitPrice (?details ! k)
               = (case findMachineByCode (machineCode (lineItems ! k)) catalog of
                    None \<Rightarrow> Num 0 | Some m \<Rightarrow> price m)
           \<and> subtotal (?details ! k) = js_mul (unitPrice (?details ! k)) (quantity (lineItems ! k))"
    by (simp add: lineItemDetails_def lineItemDetail_simps unitPriceOf_def split: option.split)
  note fold = grandSubtotal_foldl [of catalog lineItems]
  have disc: "discountAmount catalog lineItems (Num d)
           = js_div (js_mul (grandSubtotal catalog lineItems) (Num d)) (Num 100)"
    by (simp add: discountAmount_def)
  have total: "grandTotal catalog lineItems (Num d)
           = js_sub (grandSubtotal catalog lineItems) (discountAmount catalog lineItems (Num d))"
    by (simp add: grandTotal_def)
  have unit: "\<exists>u. unitPrice (lineItemDetail catalog item) = Num u \<and> 0 \<le> u" for item
    using unitPriceOf_catalog [OF catalog] by (simp add: lineItemDetail_simps)
  have sub: "\<forall>x\<in>set (map subtotal ?details). x = PInf \<or> (\<exists>r. x = Num r \<and> 0 \<le> r)"
  proof
    fix x assume "x \<in> set (map subtotal ?details)"
    then obtain item where item: "item \<in> set lineItems"
      and x: "x = subtotal (lineItemDetail catalog item)"
      by (auto simp: lineItemDetails_def)
    from unit [of item] obtain u where u: "unitPrice (lineItemDetail catalog item) = Num u" "0 \<le> u"
      by blast
    from items item obtain q where q: "quantity item = Num q" "1 \<le> q" by blast
    from u q have "x = fl (u * q)" "0 \<le> u * q"
      by (simp_all add: x lineItemDetail_simps)
    with fl_nonneg [of "u * q"] show "x = PInf \<or> (\<exists>r. x = Num r \<and> 0 \<le> r)" by simp
  qed
  have nonneg: "grandSubtotal catalog lineItems = PInf
            \<or> (\<exists>S. grandSubtotal catalog lineItems = Num S \<and> 0 \<le> S)"
    unfolding fold by (rule foldl_js_add_nonneg [OF _ sub]) simp
  have le: "\<forall>S. grandSubtotal catalog lineItems = Num S \<longrightarrow>
             js_le (grandTotal catalog lineItems (Num d)) (grandSubtotal catalog lineItems)"
  proof (intro allI impI)
    fix S assume S: "grandSubtotal catalog lineItems = Num S"
    with nonneg have S0: "0 \<le> S" by simp
    from S have "representable S"
      unfolding fold by (rule foldl_js_add_representable)
    from total_le_subtotal [OF this S0 d(1)]
    show "js_le (grandTotal catalog lineItems (Num d)) (grandSubtotal catalog lineItems)"
      by (simp add: total disc S)
  qed
  have inf: "grandSubtotal catalog lineItems = PInf \<longrightarrow>
             grandTotal catalog lineItems (Num d) = NaN"
    using total_of_infinite_subtotal [OF d(1)] by (simp add: total disc)
  have exact: "\<forall>us qs.
               map unitPrice ?details = map (\<lambda>u. Num (of_int u)) us
             \<and> map quantity lineItems = map (\<lambda>q. Num (of_int q)) qs
             \<and> sum_list (map2 (*) us qs) \<le> 2 ^ 53
            \<longrightarrow> map subtotal ?details = map (\<lambda>z. Num (of_int z)) (map2 (*) us qs)
              \<and> grandSubtotal catalog lineItems = Num (of_int (sum_list (map2 (*) us qs)))"
  proof (intro allI impI, elim conjE)
    fix us qs :: "int list"
    assume us: "map unitPrice ?details = map (\<lambda>u. Num (of_int u)) us"
      and qs: "map quantity lineItems = map (\<lambda>q. Num (of_int q)) qs"
      and sum: "sum_list (map2 (*) us qs) \<le> 2 ^ 53"
    from arg_cong [OF us, of length] have lu: "length us = length lineItems"
      by (simp add: lineItemDetails_def)
    from arg_cong [OF qs, of length] have lq: "length qs = length lineItems" by simp
    have u0: "\<forall>u\<in>set us. 0 \<le> u"
    proof
      fix u assume "u \<in> set us"
      then obtain i where i: "i < length us" "u = us ! i" by (auto simp: in_set_conv_nth)
      from arg_cong [OF us, of "\<lambda>l. l ! i"] i lu
      have "unitPrice (lineItemDetail catalog (lineItems ! i)) = Num (of_int u)"
        by (simp add: lineItemDetails_def)
      with unit [of "lineItems ! i"] show "0 \<le> u" by simp
    qed
    have q0: "\<forall>q\<in>set qs. 0 \<le> q"
    proof
      fix q assume "q \<in> set qs"
      then obtain i where i: "i < length qs" "q = qs ! i" by (auto simp: in_set_conv_nth)
      from arg_cong [OF qs, of "\<lambda>l. l ! i"] i lq
      have "quantity (lineItems ! i) = Num (of_int q)" by simp
      moreover from i lq items obtain r where "quantity (lineItems ! i) = Num r" "1 \<le> r"
        by (metis nth_mem)
      ultimately have "(1::rat) \<le> of_int q" by simp
      then show "0 \<le> q" by linarith
    qed
    note subs = subtotals_int [OF us qs u0 q0 sum]
    have z0: "\<forall>z\<in>set (map2 (*) us qs). 0 \<le> z"
    proof
      fix z assume "z \<in> set (map2 (*) us qs)"
      then obtain u q where "z = u * q" "(u, q) \<in> set (zip us qs)" by auto
      moreover from this have "u \<in> set us" "q \<in> set qs"
        by (auto dest: set_zip_leftD set_zip_rightD)
      ultimately show "0 \<le> z" using u0 q0 by simp
    qed
    from foldl_js_add_int [OF z0, of 0] sum
    have "grandSubtotal catalog lineItems = Num (of_int (sum_list (map2 (*) us qs)))"
      by (simp add: fold subs)
    with subs
    show "map subtotal ?details = map (\<lambda>z. Num (of_int z)) (map2 (*) us qs)
        \<and> grandSubtotal catalog lineItems = Num (of_int (sum_list (map2 (*) us qs)))"
      by simp
  qed
  from len lines fold disc total nonneg le inf exact show ?thesis
    by (intro conjI)
qed

theorem pricing_computation_witness:
  "length (lineItemDetails [machineX1, machineX2] exampleItems) = 2
 \<and> map subtotal (lineItemDetails [machineX1, machineX2] exampleItems) = [Num 2000, Num 500]
 \<and> grandSubtotal [machineX1, machineX2] exampleItems = Num 2500
 \<and> discountAmount [machineX1, machineX2] exampleItems (Num 10) = Num 250
 \<and> grandTotal [machineX1, machineX2] exampleItems (Num 10) = Num 2250
 \<and> js_le (grandTotal [machineX1, machineX2] exampleItems (Num 10))
          (grandSubtotal [machineX1, machineX2] exampleItems)"
proof -
  have items: "\<forall>item\<in>set exampleItems. \<exists>q. quantity item = Num q \<and> 1 \<le> q"
    by (simp add: exampleItems_def)
  have catalog: "\<forall>m\<in>set [machineX1, machineX2]. \<exists>p. price m = Num p \<and> 0 \<le> p"
    by (simp add: machineX1_def machineX2_def)
  have d: "(0::rat) \<le> 10" "(10::rat) \<le> 100" by simp_all
  note inst = pricing_computation [OF items catalog d]
  note rest1 = inst [THEN conjunct2]
  note rest2 = rest1 [THEN conjunct2]
  note rest3 = rest2 [THEN conjunct2]
  note rest4 = rest3 [THEN conjunct2]
  note rest5 = rest4 [THEN conjunct2]
  note rest6 = rest5 [THEN conjunct2]
  note rest7 = rest6 [THEN conjunct2]
  have us: "map unitPrice (lineItemDetails [machineX1, machineX2] exampleItems)
              = map (\<lambda>u. Num (of_int u)) [1000, 500]"
    by (simp add: lineItemDetails_def lineItemDetail_simps unitPriceOf_def findMachineByCode_def
          exampleItems_def machineX1_def machineX2_def)
  have qs: "map quantity exampleItems = map (\<lambda>q. Num (of_int q)) [2, 1]"
    by (simp add: exampleItems_def)
  have sum: "sum_list (map2 (*) [1000, 500] [2, 1 :: int]) \<le> 2 ^ 53" by simp
  from rest7 [THEN conjunct2, rule_format, of "[1000, 500]" "[2, 1]"] us qs sum
  have exact: "map subtotal (lineItemDetails [machineX1, machineX2] exampleItems)
          = map (\<lambda>z. Num (of_int z)) (map2 (*) [1000, 500] [2, 1])
      \<and> grandSubtotal [machineX1, machineX2] exampleItems
          = Num (of_int (sum_list (map2 (*) [1000, 500] [2, 1])))"
    by blast
  then have s: "grandSubtotal [machineX1, machineX2] exampleItems = Num 2500"
    and subs: "map subtotal (lineItemDetails [machineX1, machineX2] exampleItems)
                 = [Num 2000, Num 500]"
    by simp_all
  from inst [THEN conjunct1]
  have len: "length (lineItemDetails [machineX1, machineX2] exampleItems) = 2"
    by (simp add: exampleItems_def)
  from rest6 [THEN conjunct1, rule_format, OF s]
  have le: "js_le (grandTotal [machineX1, machineX2] exampleItems (Num 10))
          (grandSubtotal [machineX1, machineX2] exampleItems)" .
  from rest3 [THEN conjunct1]
  have disc: "discountAmount [machineX1, machineX2] exampleItems (Num 10) = Num 250"
    by (simp add: s fl_numeral)
  from rest4 [THEN conjunct1]
  have total: "grandTotal [machineX1, machineX2] exampleItems (Num 10) = Num 2250"
    by (simp add: s disc fl_numeral)
  from len subs s disc total le show ?thesis by (intro conjI)
qed

theorem pricing_overflow_counterexample:
  "representable (2 ^ 1023)
 \<and> price hugeMachine = Num (2 ^ 1023)
 \<and> map quantity hugeItems = [Num 4]
 \<and> grandSubtotal [hugeMachine] hugeItems = PInf
 \<and> discountAmount [hugeMachine] hugeItems (Num 10) = PInf
 \<and> grandTotal [hugeMachine] hugeItems (Num 10) = NaN
 \<and> \<not> js_le (grandTotal [hugeMachine] hugeItems (Num 10)) (grandSubtotal [hugeMachine] hugeItems)"
proof -
  have s: "grandSubtotal [hugeMachine] hugeItems = PInf"
    using fl_2_1025
    by (simp add: grandSubtotal_def lineItemDetails_def lineItemDetail_simps unitPriceOf_def
          findMachineByCode_def hugeItems_def hugeMachine_def)
  then have d: "discountAmount [hugeMachine] hugeItems (Num 10) = PInf"
    by (simp add: discountAmount_def)
  with s have t: "grandTotal [hugeMachine] hugeItems (Num 10) = NaN"
    by (simp add: grandTotal_def)
  from representable_2_1023 s d t show ?thesis
    by (simp add: hugeMachine_def hugeItems_def)
qed

section \<open>Discount percentages above 100\<close>

text \<open>
  C2, as amended: the lines and the grand subtotal do not depend on the discount
  percentage (they are computed from the line items and the catalog alone), and a
  percentage above 100 is not clamped: with 150 the discount amount is the grand subtotal
  times 150 over 100 and the grand total is the grand subtotal minus that amount.  When
  the grand subtotal is a whole number \<open>n\<close> of at most \<open>2 ^ 45\<close> in absolute value,
  a percentage of 150 gives a discount amount of \<open>3 n / 2\<close> and a grand total of
  \<open>- n / 2\<close>, where 100 gives \<open>n\<close> and 0, so that the results for 150 and for 100
  are the same only when \<open>n\<close> is 0.  The form handler stores the percentage 150 as it
  is entered.  Nothing is stated about negative percentages.
\<close>

theorem discount_above_100_not_clamped:
  assumes "grandSubtotal catalog lineItems = Num (of_int n)" and "\<bar>n\<bar> \<le> 2 ^ 45"
  shows "discountAmount catalog lineItems (Num 150)
           = js_div (js_mul (grandSubtotal catalog lineItems) (Num 150)) (Num 100)
       \<and> grandTotal catalog lineItems (Num 150)
           = js_sub (grandSubtotal catalog lineItems) (discountAmount catalog lineItems (Num 150))
       \<and> discountAmount catalog lineItems (Num 150) = Num (of_int (3 * n) / 2)
       \<and> grandTotal catalog lineItems (Num 150) = Num (- of_int n / 2)
       \<and> discountAmount catalog lineItems (Num 100) = Num (of_int n)
       \<and> grandTotal catalog lineItems (Num 100) = Num 0
       \<and> (discountAmount catalog lineItems (Num 150) = discountAmount catalog lineItems (Num 100)
            \<longleftrightarrow> n = 0)
       \<and> (grandTotal catalog lineItems (Num 150) = grandTotal catalog lineItems (Num 100)
            \<longleftrightarrow> n = 0)
       \<and> handleInputChange_discountPercent (Num 150) = Num 150"
proof -
  from assms(2) have b: "\<bar>n * 150\<bar> \<le> 2 ^ 53" "\<bar>n * 100\<bar> \<le> 2 ^ 53" "\<bar>3 * n\<bar> \<le> 2 ^ 53"
    "\<bar>- n\<bar> \<le> 2 ^ 53" "\<bar>n\<bar> \<le> 2 ^ 53"
    by (simp_all add: abs_mult)
  have m150: "js_mul (Num (of_int n)) (Num 150) = Num (of_int (n * 150))"
    using fl_of_int [OF b(1)] by simp
  have "(of_int (n * 150) :: rat) / 100 = of_int (3 * n) / 2" by simp
  then have d150: "js_div (Num (of_int (n * 150))) (Num 100) = Num (of_int (3 * n) / 2)"
    using fl_representable [OF representable_half_int [OF b(3)]] by simp
  have "(of_int n :: rat) - of_int (3 * n) / 2 = of_int (- n) / 2" by simp
  then have t150: "js_sub (Num (of_int n)) (Num (of_int (3 * n) / 2)) = Num (- of_int n / 2)"
    using fl_representable [OF representable_half_int [OF b(4)]] by simp
  have m100: "js_mul (Num (of_int n)) (Num 100) = Num (of_int (n * 100))"
    using fl_of_int [OF b(2)] by simp
  have d100: "js_div (Num (of_int (n * 100))) (Num 100) = Num (of_int n)"
    using fl_of_int [OF b(5)] by simp
  have t100: "js_sub (Num (of_int n)) (Num (of_int n)) = Num 0"
    by (simp add: fl_numeral)
  have D150: "discountAmount catalog lineItems (Num 150) = Num (of_int (3 * n) / 2)"
    by (simp only: discountAmount_def assms(1) m150 d150)
  have T150: "grandTotal catalog lineItems (Num 150) = Num (- of_int n / 2)"
    by (simp only: grandTotal_def D150 assms(1) t150)
  have D100: "discountAmount catalog lineItems (Num 100) = Num (of_int n)"
    by (simp only: discountAmount_def assms(1) m100 d100)
  have T100: "grandTotal catalog lineItems (Num 100) = Num 0"
    by (simp only: grandTotal_def D100 assms(1) t100)
  have "discountAmount catalog lineItems (Num 150)
           = js_div (js_mul (grandSubtotal catalog lineItems) (Num 150)) (Num 100)"
    by (simp add: discountAmount_def)
  moreover have "grandTotal catalog lineItems (Num 150)
           = js_sub (grandSubtotal catalog lineItems) (discountAmount catalog lineItems (Num 150))"
    by (simp add: grandTotal_def)
  moreover have "discountAmount catalog lineItems (Num 150)
                   = discountAmount catalog lineItems (Num 100) \<longleftrightarrow> n = 0"
    by (simp add: D150 D100)
  moreover have "grandTotal catalog lineItems (Num 150)
                   = grandTotal catalog lineItems (Num 100) \<longleftrightarrow> n = 0"
    by (simp add: T150 T100)
  moreover have "handleInputChange_discountPercent (Num 150) = Num 150"
    by (simp add: handleInputChange_discountPercent_def js_or_def)
  ultimately show ?thesis using D150 T150 D100 T100 by (intro conjI)
qed

theorem discount_above_100_not_clamped_witness:
  "discountAmount [machineX1, machineX2] exampleItems (Num 150) = Num 3750
 \<and> grandTotal [machineX1, machineX2] exampleItems (Num 150) = Num (- 1250)
 \<and> discountAmount [machineX1, machineX2] exampleItems (Num 100) = Num 2500
 \<and> grandTotal [machineX1, machineX2] exampleItems (Num 100) = Num 0"
proof -
  have "grandSubtotal [machineX1, machineX2] exampleItems = Num 2500"
    by (simp add: grandSubtotal_def lineItemDetails_def lineItemDetail_simps unitPriceOf_def
          findMachineByCode_def exampleItems_def machineX1_def machineX2_def fl_numeral)
  then have s: "grandSubtotal [machineX1, machineX2] exampleItems = Num (of_int 2500)"
    by simp
  have n: "\<bar>2500 :: int\<bar> \<le> 2 ^ 45" by simp
  note r = discount_above_100_not_clamped [OF s n, THEN conjunct2, THEN conjunct2]
  from r [THEN conjunct1]
  have 1: "discountAmount [machineX1, machineX2] exampleItems (Num 150) = Num 3750" by simp
  from r [THEN conjunct2, THEN conjunct1]
  have 2: "grandTotal [machineX1, machineX2] exampleItems (Num 150) = Num (- 1250)" by simp
  from r [THEN conjunct2, THEN conjunct2, THEN conjunct1]
  have 3: "discountAmount [machineX1, machineX2] exampleItems (Num 100) = Num 2500" by simp
  from r [THEN conjunct2, THEN conjunct2, THEN conjunct2, THEN conjunct1]
  have 4: "grandTotal [machineX1, machineX2] exampleItems (Num 100) = Num 0" by simp
  from 1 2 3 4 show ?thesis by (intro conjI)
qed

theorem clamping_counterexample:
  "discountAmount [machineX1, machineX2] exampleItems (Num 150)
     \<noteq> discountAmount [machineX1, machineX2] exampleItems (Num 100)
 \<and> grandTotal [machineX1, machineX2] exampleItems (Num 150)
     \<noteq> grandTotal [machineX1, machineX2] exampleItems (Num 100)
 \<and> discountAmount [machineX1, machineX2] exampleItems (Num (- 10))
     \<noteq> discountAmount [machineX1, machineX2] exampleItems (Num 0)
 \<and> grandTotal [machineX1, machineX2] exampleItems (Num (- 10))
     \<noteq> grandTotal [machineX1, machineX2] exampleItems (Num 0)
 \<and> grandTotal [machineX1, machineX2] exampleItems (Num 150) = Num (- 1250)
 \<and> grandTotal [machineX1, machineX2] exampleItems (Num 100) = Num 0
 \<and> grandTotal [machineX1, machineX2] exampleItems (Num (- 10)) = Num 2750
 \<and> grandTotal [machineX1, machineX2] exampleItems (Num 0) = Num 2500"
  by (simp add: grandTotal_def discountAmount_def grandSubtotal_def lineItemDetails_def
        lineItemDetail_simps unitPriceOf_def findMachineByCode_def exampleItems_def
        machineX1_def machineX2_def fl_numeral)

section \<open>The quantity floor\<close>

text \<open>
  C4: every mutation of the line items keeps every quantity at least 1.  Starting from
  line items whose quantities are all at least 1: \<open>handleMachineSelect\<close> keeps the
  invariant, appends an item of quantity 1 when no item has the machine's code, and
  otherwise sets the quantity of the items with that code to \<open>quantity + 1\<close>, which is
  the number \<open>q + 1\<close> whenever that is a double (as for every whole number \<open>q\<close> below
  \<open>2 ^ 53\<close>); \<open>removeLineItem\<close> keeps the invariant; \<open>adjustQuantity\<close> sets the
  quantity of the item to \<open>Math.max(1, quantity + delta)\<close> for every \<open>delta\<close>, which
  for a numeric \<open>delta = d\<close> is \<open>max 1 (q + d)\<close> whenever \<open>q + d\<close> is a double, and
  keeps the invariant for every numeric \<open>delta\<close>; \<open>updateQuantityInput\<close> keeps the
  invariant for every value, \<open>NaN\<close> and the infinities included, and sets the quantity
  to 1 for \<open>NaN\<close> and for every value up to 1 (so for 0 and the negative values), and
  to the value otherwise.
\<close>

theorem quantity_floor:
  assumes inv: "\<forall>item\<in>set prev. js_ge (quantity item) (Num 1)"
  shows "(\<forall>item\<in>set (handleMachineSelect now c prev). js_ge (quantity item) (Num 1))
       \<and> (find (\<lambda>item. machineCode item = c) prev = None \<longrightarrow>
            handleMachineSelect now c prev =
              prev @ [\<lparr>item_id = c @ ''-'' @ toString_nat now, machineCode = c,
                       quantity = Num 1\<rparr>])
       \<and> (\<forall>k<length prev. machineCode (prev ! k) = c \<longrightarrow>
            handleMachineSelect now c prev ! k =
              (prev ! k)\<lparr>quantity := js_add (quantity (prev ! k)) (Num 1)\<rparr>
          \<and> (\<forall>q. quantity (prev ! k) = Num q \<and> representable (q + 1) \<longrightarrow>
                 handleMachineSelect now c prev ! k = (prev ! k)\<lparr>quantity := Num (q + 1)\<rparr>)
          \<and> (\<forall>n. quantity (prev ! k) = Num (of_int n) \<and> n < 2 ^ 53 \<longrightarrow>
                 1 \<le> n \<and>
                 handleMachineSelect now c prev ! k
                   = (prev ! k)\<lparr>quantity := Num (of_int (n + 1))\<rparr>))
       \<and> (\<forall>item\<in>set (removeLineItem i prev). js_ge (quantity item) (Num 1))
       \<and> (\<forall>k<length prev. item_id (prev ! k) = i \<longrightarrow>
            adjustQuantity i delta prev ! k =
              (prev ! k)\<lparr>quantity := Math_max (Num 1) (js_add (quantity (prev ! k)) delta)\<rparr>)
       \<and> (\<forall>k<length prev. item_id (prev ! k) = i \<longrightarrow>
            (\<forall>q. quantity (prev ! k) = Num q \<and> representable (q + d) \<longrightarrow>
                 adjustQuantity i (Num d) prev ! k
                   = (prev ! k)\<lparr>quantity := Num (max 1 (q + d))\<rparr>))
       \<and> (\<forall>item\<in>set (adjustQuantity i (Num d) prev). js_ge (quantity item) (Num 1))
       \<and> (\<forall>item\<in>set (updateQuantityInput i v prev). js_ge (quantity item) (Num 1))
       \<and> (\<forall>k<length prev. item_id (prev ! k) = i \<longrightarrow>
            updateQuantityInput i v prev ! k =
              (prev ! k)\<lparr>quantity := (case v of NaN \<Rightarrow> Num 1 | PInf \<Rightarrow> PInf | NInf \<Rightarrow> Num 1
                                        | Num r \<Rightarrow> if r \<le> 1 then Num 1 else Num r)\<rparr>)"
proof -
  have a: "\<forall>k<length prev. machineCode (prev ! k) = c \<longrightarrow>
            handleMachineSelect now c prev ! k =
              (prev ! k)\<lparr>quantity := js_add (quantity (prev ! k)) (Num 1)\<rparr>
          \<and> (\<forall>q. quantity (prev ! k) = Num q \<and> representable (q + 1) \<longrightarrow>
                 handleMachineSelect now c prev ! k = (prev ! k)\<lparr>quantity := Num (q + 1)\<rparr>)
          \<and> (\<forall>n. quantity (prev ! k) = Num (of_int n) \<and> n < 2 ^ 53 \<longrightarrow>
                 1 \<le> n \<and>
                 handleMachineSelect now c prev ! k
                   = (prev ! k)\<lparr>quantity := Num (of_int (n + 1))\<rparr>)"
  proof (intro allI impI conjI)
    fix k assume k: "k < length prev" "machineCode (prev ! k) = c"
    note e = handleMachineSelect_existing [OF k, of now]
    show "handleMachineSelect now c prev ! k =
            (prev ! k)\<lparr>quantity := js_add (quantity (prev ! k)) (Num 1)\<rparr>" by (rule e)
    {
      fix q assume "quantity (prev ! k) = Num q \<and> representable (q + 1)"
      then show "handleMachineSelect now c prev ! k = (prev ! k)\<lparr>quantity := Num (q + 1)\<rparr>"
        by (simp add: e fl_representable)
    }
    {
      fix n :: int assume n: "quantity (prev ! k) = Num (of_int n) \<and> n < 2 ^ 53"
      from inv k(1) have "js_ge (quantity (prev ! k)) (Num 1)" by simp
      with n have "(1::rat) \<le> of_int n" by (simp add: js_ge_def)
      then show n1: "1 \<le> n" by linarith
      with n have "\<bar>n + 1\<bar> \<le> 2 ^ 53" by simp
      from fl_of_int [OF this] n
      show "handleMachineSelect now c prev ! k = (prev ! k)\<lparr>quantity := Num (of_int (n + 1))\<rparr>"
        by (simp add: e)
    }
  qed
  have b: "\<forall>k<length prev. item_id (prev ! k) = i \<longrightarrow>
            (\<forall>q. quantity (prev ! k) = Num q \<and> representable (q + d) \<longrightarrow>
                 adjustQuantity i (Num d) prev ! k
                   = (prev ! k)\<lparr>quantity := Num (max 1 (q + d))\<rparr>)"
    by (simp add: adjustQuantity_nth fl_representable)
  have e: "(case v of NaN \<Rightarrow> Num 1 | PInf \<Rightarrow> PInf | NInf \<Rightarrow> Num 1 | Num r \<Rightarrow> Num (max 1 r)) =
           (case v of NaN \<Rightarrow> Num 1 | PInf \<Rightarrow> PInf | NInf \<Rightarrow> Num 1
            | Num r \<Rightarrow> if r \<le> 1 then Num 1 else Num r)"
    by (cases v) (simp_all add: max_def)
  have u: "\<forall>k<length prev. item_id (prev ! k) = i \<longrightarrow>
            updateQuantityInput i v prev ! k =
              (prev ! k)\<lparr>quantity := (case v of NaN \<Rightarrow> Num 1 | PInf \<Rightarrow> PInf | NInf \<Rightarrow> Num 1
                                        | Num r \<Rightarrow> if r \<le> 1 then Num 1 else Num r)\<rparr>"
    using updateQuantityInput_nth [of _ prev i v] by (simp add: e)
  have n: "find (\<lambda>item. machineCode item = c) prev = None \<longrightarrow>
            handleMachineSelect now c prev =
              prev @ [\<lparr>item_id = c @ ''-'' @ toString_nat now, machineCode = c,
                       quantity = Num 1\<rparr>]"
    using handleMachineSelect_new [of c prev now] by simp
  have j: "\<forall>k<length prev. item_id (prev ! k) = i \<longrightarrow>
            adjustQuantity i delta prev ! k =
              (prev ! k)\<lparr>quantity := Math_max (Num 1) (js_add (quantity (prev ! k)) delta)\<rparr>"
    by (simp add: adjustQuantity_nth)
  from handleMachineSelect_inv [OF inv, of now c] n a removeLineItem_inv [OF inv, of i] j b
    adjustQuantity_inv [OF inv, of i d] updateQuantityInput_inv [OF inv, of i v] u
  show ?thesis by (intro conjI)
qed

theorem quantity_floor_witness:
  "list_all (\<lambda>item. js_ge (quantity item) (Num 1)) (handleMachineSelect 5 ''X1'' exampleItems)
 \<and> list_all (\<lambda>item. js_ge (quantity item) (Num 1)) (removeLineItem ''X1-1'' exampleItems)
 \<and> list_all (\<lambda>item. js_ge (quantity item) (Num 1))
      (adjustQuantity ''X1-1'' (Num (- 5)) exampleItems)
 \<and> list_all (\<lambda>item. js_ge (quantity item) (Num 1))
      (updateQuantityInput ''X1-1'' NaN exampleItems)
 \<and> map quantity (handleMachineSelect 5 ''X1'' exampleItems) = [Num 3, Num 1]
 \<and> handleMachineSelect 5 ''X3'' exampleItems =
      exampleItems @ [\<lparr>item_id = ''X3-5'', machineCode = ''X3'', quantity = Num 1\<rparr>]
 \<and> map quantity (adjustQuantity ''X1-1'' (Num (- 5)) exampleItems) = [Num 1, Num 1]
 \<and> map quantity (updateQuantityInput ''X1-1'' NaN exampleItems) = [Num 1, Num 1]
 \<and> map quantity (updateQuantityInput ''X1-1'' (Num 0) exampleItems) = [Num 1, Num 1]
 \<and> map quantity (updateQuantityInput ''X1-1'' (Num (- 4)) exampleItems) = [Num 1, Num 1]
 \<and> map quantity (updateQuantityInput ''X1-1'' (Num 7) exampleItems) = [Num 7, Num 1]"
proof -
  have inv: "\<forall>item\<in>set exampleItems. js_ge (quantity item) (Num 1)"
    by (simp add: exampleItems_def js_ge_def)
  have five: "toString_nat 5 = ''5''"
    by code_simp
  from quantity_floor [OF inv, of 5 "''X1''" "''X1-1''" "Num (- 5)" "- 5" NaN]
  have "list_all (\<lambda>item. js_ge (quantity item) (Num 1)) (handleMachineSelect 5 ''X1'' exampleItems)
      \<and> list_all (\<lambda>item. js_ge (quantity item) (Num 1)) (removeLineItem ''X1-1'' exampleItems)
      \<and> list_all (\<lambda>item. js_ge (quantity item) (Num 1))
           (adjustQuantity ''X1-1'' (Num (- 5)) exampleItems)
      \<and> list_all (\<lambda>item. js_ge (quantity item) (Num 1))
           (updateQuantityInput ''X1-1'' NaN exampleItems)"
    by (simp add: list_all_iff)
  moreover have "map quantity (handleMachineSelect 5 ''X1'' exampleItems) = [Num 3, Num 1]"
    by (simp add: handleMachineSelect_def exampleItems_def fl_numeral)
  moreover have "handleMachineSelect 5 ''X3'' exampleItems =
      exampleItems @ [\<lparr>item_id = ''X3-5'', machineCode = ''X3'', quantity = Num 1\<rparr>]"
    by (simp add: handleMachineSelect_def exampleItems_def five)
  moreover have "map quantity (adjustQuantity ''X1-1'' (Num (- 5)) exampleItems) = [Num 1, Num 1]"
    by (simp add: adjustQuantity_def exampleItems_def fl_numeral)
  moreover have "map quantity (updateQuantityInput ''X1-1'' NaN exampleItems) = [Num 1, Num 1]"
    "map quantity (updateQuantityInput ''X1-1'' (Num 0) exampleItems) = [Num 1, Num 1]"
    "map quantity (updateQuantityInput ''X1-1'' (Num (- 4)) exampleItems) = [Num 1, Num 1]"
    "map quantity (updateQuantityInput ''X1-1'' (Num 7) exampleItems) = [Num 7, Num 1]"
    by (simp_all add: updateQuantityInput_def exampleItems_def js_or_def)
  ultimately show ?thesis by blast
qed

section \<open>Line items with an unknown machine code\<close>

text \<open>
  C5: for a line item whose machine code is the code of no machine of the catalog
  (codes are compared as they are written, capitals and small letters apart), the lookup
  returns \<open>null\<close>, the line is still computed, its unit price is 0 and, its quantity
  being a number, its subtotal is 0.  The computation has no failing branch: the lookup
  is a \<open>find\<close>, and the price is read through \<open>?.\<close> and \<open>??\<close>.
\<close>

theorem unknown_code_priced_zero:
  assumes "k < length lineItems"
    and "\<forall>m\<in>set catalog. code m \<noteq> machineCode (lineItems ! k)"
    and "quantity (lineItems ! k) = Num q"
  shows "length (lineItemDetails catalog lineItems) = length lineItems
       \<and> findMachineByCode (machineCode (lineItems ! k)) catalog = None
       \<and> machine (lineItemDetails catalog lineItems ! k) = None
       \<and> unitPrice (lineItemDetails catalog lineItems ! k) = Num 0
       \<and> subtotal (lineItemDetails catalog lineItems ! k) = Num 0"
proof -
  from assms(2) have none: "findMachineByCode (machineCode (lineItems ! k)) catalog = None"
    by (auto simp: findMachineByCode_def find_None_iff)
  with assms(1,3) show ?thesis
    by (simp add: lineItemDetails_def lineItemDetail_simps unitPriceOf_def fl_numeral)
qed

theorem unknown_code_priced_zero_witness:
  "findMachineByCode ''x1'' [machineX1, machineX2] = None
 \<and> map unitPrice (lineItemDetails [machineX1, machineX2] unknownItems) = [Num 1000, Num 0]
 \<and> map subtotal (lineItemDetails [machineX1, machineX2] unknownItems) = [Num 2000, Num 0]
 \<and> grandSubtotal [machineX1, machineX2] unknownItems = Num 2000"
proof -
  have k: "1 < length unknownItems" by (simp add: unknownItems_def)
  have c: "\<forall>m\<in>set [machineX1, machineX2]. code m \<noteq> machineCode (unknownItems ! 1)"
    by (simp add: unknownItems_def machineX1_def machineX2_def)
  have q: "quantity (unknownItems ! 1) = Num 3" by (simp add: unknownItems_def)
  from unknown_code_priced_zero [OF k c q]
  have "findMachineByCode ''x1'' [machineX1, machineX2] = None"
    by (simp add: unknownItems_def)
  then show ?thesis
    by (simp add: grandSubtotal_def lineItemDetails_def lineItemDetail_simps unitPriceOf_def
          findMachineByCode_def unknownItems_def machineX1_def machineX2_def fl_numeral)
qed

section \<open>Deactivating a machine\<close>

text \<open>
  C7: \<open>handleDeleteMachine\<close> never removes a machine.  Whatever the dialog and the
  request come to, the machine list keeps its length and the ids in their order.  When
  the deletion of the numeric id \<open>machineId\<close> is confirmed and the server answers with
  \<open>ok\<close>, every machine with that id is the machine it was with \<open>active\<close> set to
  \<open>false\<close>, and every machine with another id is the machine it was.
\<close>

theorem deactivate_keeps_machines:
  assumes "machineId = Num x"
  shows "length (machines (handleDeleteMachine machineId confirmed outcome st))
           = length (machines st)
       \<and> map machine_id (machines (handleDeleteMachine machineId confirmed outcome st))
           = map machine_id (machines st)
       \<and> (\<forall>k<length (machines st).
            machines (handleDeleteMachine machineId True (Response True) st) ! k =
              (if machine_id (machines st ! k) = machineId
               then (machines st ! k)\<lparr>active := False\<rparr>
               else machines st ! k))"
proof -
  have eq: "strict_eq n machineId \<longleftrightarrow> n = machineId" for n
    using assms by (cases n) auto
  show ?thesis
    by (auto simp: handleDeleteMachine_def showNotification_def eq
          split: delete_outcome.splits)
qed

theorem deactivate_keeps_machines_witness:
  "machines (handleDeleteMachine (Num 1) True (Response True) examplePanel)
     = [machineX1\<lparr>active := False\<rparr>, machineX2]
 \<and> machines (handleDeleteMachine (Num 1) True (Response False) examplePanel)
     = [machineX1, machineX2]
 \<and> machines (handleDeleteMachine (Num 1) True Rejected examplePanel)
     = [machineX1, machineX2]
 \<and> machines (handleDeleteMachine (Num 1) False (Response True) examplePanel)
     = [machineX1, machineX2]
 \<and> length (machines (handleDeleteMachine (Num 1) True (Response True) examplePanel)) = 2"
proof -
  have id: "Num 1 = Num 1" by simp
  from deactivate_keeps_machines [OF id, of True "Response True" examplePanel]
  have "length (machines (handleDeleteMachine (Num 1) True (Response True) examplePanel)) = 2"
    by (simp add: examplePanel_def)
  then show ?thesis
    by (simp add: handleDeleteMachine_def showNotification_def examplePanel_def
          machineX1_def machineX2_def)
qed

section \<open>Loading the preview\<close>

text \<open>
  C8: when the file's name ends in \<open>.pdf\<close> (capitals or not) and the preview request
  is answered with \<open>ok\<close> and the parsed data, the component is in the preview step, its
  review list has one product for each parsed product, in the same order, each being the
  parsed product with \<open>_selected\<close> set to whether its price is not \<open>null\<close> and
  \<open>_expanded\<close> set to \<open>false\<close>: a product is marked selected if and only if its
  parsed price is not \<open>null\<close>.
\<close>

theorem preview_load_keeps_products:
  assumes "suffix ''.pdf'' (toLowerCase fileName)"
    and "st' = handleFileUpload fileName (Ok_response data) st"
  shows "step st' = Preview
       \<and> length (products st') = length (pd_products data)
       \<and> (\<forall>k<length (pd_products data).
            products st' ! k =
              (pd_products data ! k)\<lparr>p_selected := Some (p_price (pd_products data ! k) \<noteq> None),
                                      p_expanded := Some False\<rparr>
          \<and> p_price (products st' ! k) = p_price (pd_products data ! k)
          \<and> (p_selected (products st' ! k) = Some True
               \<longleftrightarrow> p_price (pd_products data ! k) \<noteq> None)
          \<and> (p_selected (products st' ! k) = Some False
               \<longleftrightarrow> p_price (pd_products data ! k) = None))"
  using assms by (simp add: handleFileUpload_def)

theorem preview_load_keeps_products_witness:
  "step (handleFileUpload ''LISTADEPRECIOS.PDF'' (Ok_response examplePreview) initialImportState)
     = Preview
 \<and> map p_code (products (handleFileUpload ''LISTADEPRECIOS.PDF'' (Ok_response examplePreview)
      initialImportState)) = [''ATF18'', ''SFT8'', ''ATF22'']
 \<and> map p_selected (products (handleFileUpload ''LISTADEPRECIOS.PDF'' (Ok_response examplePreview)
      initialImportState)) = [Some True, Some False, Some True]"
proof -
  have pdf: "suffix ''.pdf'' (toLowerCase ''LISTADEPRECIOS.PDF'')"
    by code_simp
  from preview_load_keeps_products [OF pdf refl, of examplePreview initialImportState]
  have "step (handleFileUpload ''LISTADEPRECIOS.PDF'' (Ok_response examplePreview)
      initialImportState) = Preview"
    by simp
  moreover have "products (handleFileUpload ''LISTADEPRECIOS.PDF'' (Ok_response examplePreview)
      initialImportState) =
      map (\<lambda>p. p\<lparr>p_selected := Some (p_price p \<noteq> None), p_expanded := Some False\<rparr>)
        [productA, productB, productC]"
    using pdf by (simp add: handleFileUpload_def examplePreview_def)
  ultimately show ?thesis
    by (simp add: productA_def productB_def productC_def)
qed

section \<open>Confirming the import\<close>

lemma handleConfirm_request:
  "fst (handleConfirm outcome st) =
     (if filter (\<lambda>p. p_selected p = Some True) (products st) = [] then None
      else Some \<lparr>body_products =
                   map (\<lambda>p. p\<lparr>p_selected := None, p_expanded := None\<rparr>)
                     (filter (\<lambda>p. p_selected p = Some True) (products st)),
                 body_payment_conditions = conditions st,
                 body_replace_existing = replaceExisting st\<rparr>)"
  by (simp add: handleConfirm_def Let_def cleanProduct_def)

lemma exampleReview_products:
  "products exampleReview =
     [productA\<lparr>p_selected := Some True, p_expanded := Some False\<rparr>,
      productB\<lparr>p_selected := Some False, p_expanded := Some False\<rparr>,
      productC\<lparr>p_selected := Some True, p_expanded := Some False\<rparr>]"
proof -
  have "suffix ''.pdf'' (toLowerCase ''LISTADEPRECIOS.pdf'')" by code_simp
  then show ?thesis
    by (simp add: exampleReview_def handleFileUpload_def examplePreview_def
          productA_def productB_def productC_def)
qed

text \<open>
  C6: \<open>handleConfirm\<close> sends a request exactly when some product is marked selected,
  and the products of its body are then the selected products of the review list, in
  their order, each without the fields \<open>_selected\<close> and \<open>_expanded\<close> and otherwise as
  it was.  So no product of the body carries one of the two fields, every product of the
  body comes from a selected product, every selected product is in the body, and the
  body is a subsequence of the review list without the two fields.
\<close>

theorem confirm_sends_selected:
  "(fst (handleConfirm outcome st) = None
      \<longleftrightarrow> filter (\<lambda>p. p_selected p = Some True) (products st) = [])
 \<and> (\<forall>body. fst (handleConfirm outcome st) = Some body \<longrightarrow>
       body_products body =
         map (\<lambda>p. p\<lparr>p_selected := None, p_expanded := None\<rparr>)
           (filter (\<lambda>p. p_selected p = Some True) (products st))
     \<and> (\<forall>q\<in>set (body_products body). p_selected q = None \<and> p_expanded q = None)
     \<and> (\<forall>q\<in>set (body_products body). \<exists>p\<in>set (products st).
          p_selected p = Some True \<and> q = p\<lparr>p_selected := None, p_expanded := None\<rparr>)
     \<and> (\<forall>p\<in>set (products st). p_selected p = Some True \<longrightarrow>
          p\<lparr>p_selected := None, p_expanded := None\<rparr> \<in> set (body_products body))
     \<and> subseq (body_products body)
          (map (\<lambda>p. p\<lparr>p_selected := None, p_expanded := None\<rparr>) (products st)))"
proof -
  have sub: "subseq (map f (filter P xs)) (map f xs)" for f :: "ParsedProduct \<Rightarrow> ParsedProduct"
    and P xs
    by (simp add: subseq_map)
  show ?thesis
    unfolding handleConfirm_request
    by (auto simp: sub)
qed

theorem confirm_sends_selected_witness:
  "map_option body_products (fst (handleConfirm (Thrown None) exampleReview))
     = Some [productA, productC]"
proof -
  from confirm_sends_selected [of "Thrown None" exampleReview]
  have "\<forall>body. fst (handleConfirm (Thrown None) exampleReview) = Some body \<longrightarrow>
          body_products body =
            map (\<lambda>p. p\<lparr>p_selected := None, p_expanded := None\<rparr>)
              (filter (\<lambda>p. p_selected p = Some True) (products exampleReview))"
    by blast
  moreover have "fst (handleConfirm (Thrown None) exampleReview) \<noteq> None"
    by (simp add: handleConfirm_request exampleReview_products)
  ultimately show ?thesis
    by (auto simp: exampleReview_products productA_def productB_def productC_def)
qed

section \<open>Confirming with nothing selected\<close>

text \<open>
  C9: when no product is marked selected, \<open>handleConfirm\<close> sends no request, and the
  state it leaves is the state it found with the error message set: the products, the
  conditions, the step (so the preview step stays the preview step), the preview, the
  result and the replace flag are as they were.
\<close>

theorem confirm_nothing_selected:
  assumes "\<forall>p\<in>set (products st). p_selected p \<noteq> Some True"
    and "r = handleConfirm outcome st"
  shows "fst r = None
       \<and> snd r = st\<lparr>error := Some (''Seleccion'' @ [char_of (225::nat)] @
                                     '' al menos un producto para importar'')\<rparr>
       \<and> products (snd r) = products st
       \<and> conditions (snd r) = conditions st
       \<and> step (snd r) = step st
       \<and> preview (snd r) = preview st
       \<and> result (snd r) = result st
       \<and> replaceExisting (snd r) = replaceExisting st"
proof -
  from assms(1) have "filter (\<lambda>p. p_selected p = Some True) (products st) = []"
    by (simp add: filter_empty_conv)
  with assms(2) show ?thesis
    by (simp add: handleConfirm_def)
qed

theorem confirm_nothing_selected_witness:
  "fst (handleConfirm (Error_response None) unpricedReview) = None
 \<and> step (snd (handleConfirm (Error_response None) unpricedReview)) = Preview
 \<and> products (snd (handleConfirm (Error_response None) unpricedReview)) = products unpricedReview
 \<and> error (snd (handleConfirm (Error_response None) unpricedReview)) \<noteq> None"
proof -
  have pdf: "suffix ''.pdf'' (toLowerCase ''LISTADEPRECIOS.pdf'')" by code_simp
  then have ps: "products unpricedReview =
      [productB\<lparr>p_selected := Some False, p_expanded := Some False\<rparr>]"
    and s: "step unpricedReview = Preview"
    by (simp_all add: unpricedReview_def handleFileUpload_def unpricedPreview_def productB_def)
  have none: "\<forall>p\<in>set (products unpricedReview). p_selected p \<noteq> Some True"
    by (simp add: ps)
  from confirm_nothing_selected [OF none refl, of "Error_response None"] s
  show ?thesis by simp
qed

section \<open>Searching the catalog\<close>

lemma string_includes_iff: "string_includes s t \<longleftrightarrow> (\<exists>before after. s = before @ t @ after)"
proof (induction s)
  case Nil
  then show ?case by simp
next
  case (Cons c s)
  have "(\<exists>before after. c # s = before @ t @ after)
        \<longleftrightarrow> prefix t (c # s) \<or> (\<exists>before after. s = before @ t @ after)"
    (is "?l \<longleftrightarrow> ?p \<or> ?r")
  proof
    assume ?l
    then obtain before after where e: "c # s = before @ t @ after" by blast
    show "?p \<or> ?r"
    proof (cases before)
      case Nil
      with e show ?thesis by (auto simp: prefix_def)
    next
      case (Cons b before')
      with e have "s = before' @ t @ after" by simp
      then show ?thesis by blast
    qed
  next
    assume "?p \<or> ?r"
    then show ?l
    proof
      assume ?p
      then obtain after where "c # s = [] @ t @ after" by (auto simp: prefix_def)
      then show ?l by blast
    next
      assume ?r
      then obtain before after where "s = before @ t @ after" by blast
      then have "c # s = (c # before) @ t @ after" by simp
      then show ?l by blast
    qed
  qed
  with Cons.IH show ?case by simp
qed

lemma string_includes_Nil: "string_includes s []"
  by (induction s) simp_all

lemma string_includes_contains_ci:
  "string_includes (toLowerCase s) (toLowerCase t) \<longleftrightarrow> contains_ci s t"
  by (simp add: string_includes_iff contains_ci_def)

text \<open>
  C10: \<open>searchMachines\<close> returns the machines of the list whose name, category or code
  contains the term case-insensitively (one of the three is enough), in the order of the
  list and as often as they occur in it; the empty term returns the whole list.
\<close>

theorem searchMachines_matches:
  "searchMachines searchTerm catalog =
     filter (\<lambda>m. contains_ci (name m) searchTerm \<or> contains_ci (category m) searchTerm
               \<or> contains_ci (code m) searchTerm) catalog
 \<and> set (searchMachines searchTerm catalog) =
     {m \<in> set catalog. contains_ci (name m) searchTerm \<or> contains_ci (category m) searchTerm
               \<or> contains_ci (code m) searchTerm}
 \<and> subseq (searchMachines searchTerm catalog) catalog
 \<and> searchMachines [] catalog = catalog"
proof -
  have 1: "searchMachines searchTerm catalog =
     filter (\<lambda>m. contains_ci (name m) searchTerm \<or> contains_ci (category m) searchTerm
               \<or> contains_ci (code m) searchTerm) catalog"
    by (simp add: searchMachines_def Let_def string_includes_contains_ci)
  have 2: "searchMachines [] catalog = catalog"
    by (simp add: searchMachines_def Let_def toLowerCase_def string_includes_Nil)
  from 1 2 show ?thesis by auto
qed

theorem searchMachines_matches_witness:
  "searchMachines ''TOLVA'' [machineX1, machineX2] = [machineX1]
 \<and> searchMachines ''x'' [machineX1, machineX2] = [machineX1, machineX2]
 \<and> searchMachines ''sinfines'' [machineX1, machineX2] = [machineX2]
 \<and> searchMachines ''cosechadora'' [machineX1, machineX2] = []
 \<and> searchMachines '''' [machineX1, machineX2] = [machineX1, machineX2]"
proof -
  have "searchMachines ''TOLVA'' [machineX1, machineX2] = [machineX1]"
    "searchMachines ''x'' [machineX1, machineX2] = [machineX1, machineX2]"
    "searchMachines ''sinfines'' [machineX1, machineX2] = [machineX2]"
    "searchMachines ''cosechadora'' [machineX1, machineX2] = []"
    by code_simp+
  moreover from searchMachines_matches [of "''''" "[machineX1, machineX2]"]
  have "searchMachines '''' [machineX1, machineX2] = [machineX1, machineX2]" by blast
  ultimately show ?thesis by blast
qed

end
